theory Spec2Isabelle
  imports Complex_Main "HOL-Library.Sublist" "HOL-Library.AList"
begin

section \<open>Python string primitives used by the retrieval engine\<close>

text \<open>
  The engine of \<^verbatim>\<open>services/intelligence/rag/hybrid_search.py\<close> works on Python
  strings with \<^verbatim>\<open>str.lower\<close>, \<^verbatim>\<open>str.strip\<close>, \<^verbatim>\<open>str.split\<close> (no separator),
  \<^verbatim>\<open>str.replace\<close> and \<^verbatim>\<open>' '.join\<close>.  A Python string is a sequence of Unicode code
  points; a \<open>char\<close> here is a code point below 256 (U+0000 to U+00FF, the Latin-1
  range), and strings with larger code points are outside the model.  On this range
  the primitives are Python's:
  \<^item> \<^verbatim>\<open>str.isspace\<close> holds of the codes 9-13, 28-31, 32, 0x85 (next line) and 0xA0
    (no-break space), and these are the characters \<^verbatim>\<open>split()\<close> and \<^verbatim>\<open>strip()\<close> treat
    as whitespace;
  \<^item> \<^verbatim>\<open>str.lower\<close> maps \<open>A\<close>..\<open>Z\<close> and the upper-case letters 0xC0-0xD6 and 0xD8-0xDE
    to the code 32 above them, and leaves every other code point below 256 unchanged.
\<close>

definition is_space :: "char \<Rightarrow> bool" where
  "is_space c =
     (let n = (of_char c :: nat)
      in (9 \<le> n \<and> n \<le> 13) \<or> (28 \<le> n \<and> n \<le> 32) \<or> n = 133 \<or> n = 160)"

definition upper_letters :: string where
  "upper_letters =
     ''ABCDEFGHIJKLMNOPQRSTUVWXYZ'' @
     [
      CHR 0xC0, CHR 0xC1, CHR 0xC2, CHR 0xC3, CHR 0xC4, CHR 0xC5, CHR 0xC6, CHR 0xC7,
      CHR 0xC8, CHR 0xC9, CHR 0xCA, CHR 0xCB, CHR 0xCC, CHR 0xCD, CHR 0xCE, CHR 0xCF,
      CHR 0xD0, CHR 0xD1, CHR 0xD2, CHR 0xD3, CHR 0xD4, CHR 0xD5, CHR 0xD6, CHR 0xD8,
      CHR 0xD9, CHR 0xDA, CHR 0xDB, CHR 0xDC, CHR 0xDD, CHR 0xDE]"

definition lower_letters :: string where
  "lower_letters =
     ''abcdefghijklmnopqrstuvwxyz'' @
     [
      CHR 0xE0, CHR 0xE1, CHR 0xE2, CHR 0xE3, CHR 0xE4, CHR 0xE5, CHR 0xE6, CHR 0xE7,
      CHR 0xE8, CHR 0xE9, CHR 0xEA, CHR 0xEB, CHR 0xEC, CHR 0xED, CHR 0xEE, CHR 0xEF,
      CHR 0xF0, CHR 0xF1, CHR 0xF2, CHR 0xF3, CHR 0xF4, CHR 0xF5, CHR 0xF6, CHR 0xF8,
      CHR 0xF9, CHR 0xFA, CHR 0xFB, CHR 0xFC, CHR 0xFD, CHR 0xFE]"

definition lower_char :: "char \<Rightarrow> char" where
  "lower_char c =
     (case map_of (zip upper_letters lower_letters) c of
        Some l \<Rightarrow> l
      | None \<Rightarrow> c)"

definition py_lower :: "string \<Rightarrow> string" where
  "py_lower s = map lower_char s"

definition py_strip :: "string \<Rightarrow> string" where
  "py_strip s = rev (dropWhile is_space (rev (dropWhile is_space s)))"

text \<open>
  \<^verbatim>\<open>s.split()\<close>: maximal runs of non-whitespace characters, in order; no empty
  strings.  The first argument is the token being read.
\<close>

fun split_from :: "string \<Rightarrow> string \<Rightarrow> string list" where
  "split_from cur [] = (if cur = [] then [] else [cur])"
| "split_from cur (c # cs) =
     (if is_space c then (if cur = [] then split_from [] cs else cur # split_from [] cs)
      else split_from (cur @ [c]) cs)"

definition py_split :: "string \<Rightarrow> string list" where
  "py_split s = split_from [] s"

text \<open>\<^verbatim>\<open>' '.join(words)\<close>.\<close>

fun py_join :: "string list \<Rightarrow> string" where
  "py_join [] = []"
| "py_join [w] = w"
| "py_join (w # v # ws) = w @ CHR '' '' # py_join (v # ws)"

text \<open>
  \<^verbatim>\<open>s.replace(old, new)\<close>: every non-overlapping occurrence of \<open>old\<close>, scanning
  from the left.  With an empty \<open>old\<close> Python inserts \<open>new\<close> before every
  character and at the end.
\<close>

fun py_replace :: "string \<Rightarrow> string \<Rightarrow> string \<Rightarrow> string" where
  "py_replace [] new s = new @ concat (map (\<lambda>c. c # new) s)"
| "py_replace (a # old) new [] = []"
| "py_replace (a # old) new (c # cs) =
     (if prefix (a # old) (c # cs) then new @ py_replace (a # old) new (drop (length old) cs)
      else c # py_replace (a # old) new cs)"

text \<open>
  \<^verbatim>\<open>xs[:n]\<close> for a Python integer \<open>n\<close>: a negative \<open>n\<close> counts from the end of
  the list.
\<close>

definition py_take :: "int \<Rightarrow> 'a list \<Rightarrow> 'a list" where
  "py_take n xs = (if 0 \<le> n then take (nat n) xs else take (length xs - nat (- n)) xs)"

text \<open>
  \<^verbatim>\<open>xs.sort(key=f, reverse=True)\<close>: Python's sort is stable, and with
  \<^verbatim>\<open>reverse=True\<close> elements with equal keys keep their original order.  This is
  a stable ascending sort on the negated key.  Scores are Python floats, modelled as
  real numbers.
\<close>

definition sort_desc :: "('a \<Rightarrow> real) \<Rightarrow> 'a list \<Rightarrow> 'a list" where
  "sort_desc f xs = sort_key (\<lambda>x. - f x) xs"

section \<open>QueryEnhancer\<close>

text \<open>The two tables of \<^verbatim>\<open>QueryEnhancer.__init__\<close>, in dictionary order.\<close>

definition tech_synonyms :: "(string \<times> string list) list" where
  "tech_synonyms =
    [(''mdm'', [''mobile device management'', ''device management'']),
     (''android'', [''android device'', ''mobile device'']),
     (''windows'', [''windows device'', ''pc'', ''desktop'']),
     (''suremdm'', [''42gears mdm'', ''device management platform'']),
     (''kiosk'', [''kiosk mode'', ''single app mode'', ''locked mode'']),
     (''app'', [''application'', ''software'', ''program'']),
     (''install'', [''installation'', ''deployment'', ''setup'']),
     (''configuration'', [''config'', ''settings'', ''setup'']),
     (''policy'', [''policies'', ''rules'', ''restrictions'']),
     (''security'', [''protection'', ''safety'', ''secure''])]"

definition common_misspellings :: "(string \<times> string) list" where
  "common_misspellings =
    [(''andriod'', ''android''),
     (''winodws'', ''windows''),
     (''configuratin'', ''configuration''),
     (''instalation'', ''installation''),
     (''managment'', ''management'')]"

text \<open>The loop \<^verbatim>\<open>for wrong, correct in self.common_misspellings.items()\<close>.\<close>

fun fix_misspellings :: "(string \<times> string) list \<Rightarrow> string \<Rightarrow> string" where
  "fix_misspellings [] enhanced = enhanced"
| "fix_misspellings ((wrong, correct) # rest) enhanced =
     fix_misspellings rest (py_replace wrong correct enhanced)"

text \<open>
  The loop \<^verbatim>\<open>for word in words\<close>; the second argument is \<^verbatim>\<open>enhanced_words\<close>,
  which grows by \<^verbatim>\<open>append\<close> and \<^verbatim>\<open>extend\<close>.
\<close>

fun expand_words :: "string list \<Rightarrow> string list \<Rightarrow> string list" where
  "expand_words [] enhanced_words = enhanced_words"
| "expand_words (word # words) enhanced_words =
     (case map_of tech_synonyms word of
        Some syns \<Rightarrow> expand_words words ((enhanced_words @ [word]) @ syns)
      | None \<Rightarrow> expand_words words (enhanced_words @ [word]))"

definition enhance_query :: "string \<Rightarrow> string" where
  "enhance_query query =
     (let enhanced = py_strip (py_lower query);
          enhanced = fix_misspellings common_misspellings enhanced;
          words = py_split enhanced
      in py_join (expand_words words []))"

section \<open>Data model\<close>

text \<open>
  Metadata dictionaries come from the vector store; their values are strings, except
  for the integer \<^verbatim>\<open>doc_index\<close> the engine adds while it builds the lexical
  index.  \<open>truthy\<close> is Python's truth value of such a value.
\<close>

datatype mvalue = MStr string | MInt int

type_synonym metadata = "string \<rightharpoonup> mvalue"

fun truthy :: "mvalue \<Rightarrow> bool" where
  "truthy (MStr s) = (s \<noteq> [])"
| "truthy (MInt i) = (i \<noteq> 0)"

text \<open>\<^verbatim>\<open>d.get(key, default)\<close>.\<close>

definition dict_get :: "metadata \<Rightarrow> string \<Rightarrow> mvalue \<Rightarrow> mvalue" where
  "dict_get d k dflt = (case d k of Some v \<Rightarrow> v | None \<Rightarrow> dflt)"

text \<open>The dataclass \<^verbatim>\<open>SearchResult\<close>.\<close>

record SearchResult =
  id_field :: mvalue
  title :: mvalue
  content :: string
  url :: mvalue
  source :: mvalue
  category :: mvalue
  vector_score :: real
  bm25_score :: real
  hybrid_score :: real
  metadata :: metadata

text \<open>
  Everything that raises in the source is a value.  The source never inspects the
  kind of an exception (\<^verbatim>\<open>except Exception\<close>), so the constructors only record
  where it came from.
\<close>

datatype error = StoreError | BM25Error | ZeroDivisionError | IndexError

text \<open>
  The ChromaDB collection is an external collaborator.  \<open>coll_get\<close> is
  \<^verbatim>\<open>collection.get(include=['documents', 'metadatas'])\<close>; \<open>coll_query\<close> is
  \<^verbatim>\<open>collection.query(query_texts=[q], n_results=n, include=[...])\<close>, whose answer
  for the single query text is three parallel lists.  Either call may raise.
\<close>

record query_response =
  documents :: "string list"
  metadatas :: "metadata list"
  distances :: "real list"

record collection =
  coll_get :: "error + (string list \<times> metadata list)"
  coll_query :: "string \<Rightarrow> int \<Rightarrow> error + query_response"

text \<open>
  \<^verbatim>\<open>BM25Okapi\<close> belongs to the library \<^verbatim>\<open>rank_bm25\<close>, not to this repository.
  A built index is represented by its method \<^verbatim>\<open>get_scores\<close> (query tokens to one
  score per document, or an exception); the constructor is a parameter of every
  function that may build the index.
\<close>

type_synonym bm25 = "string list \<Rightarrow> error + real list"

type_synonym bm25_constructor = "string list list \<Rightarrow> error + bm25"

text \<open>The fields of \<^verbatim>\<open>HybridSearchEngine\<close> that the search functions read or write.\<close>

record engine =
  vector_weight :: real
  bm25_weight :: real
  collection :: collection
  bm25_index :: "bm25 option"
  documents_corpus :: "string list list"
  documents_metadata :: "metadata list"
  bm25_initialized :: bool

text \<open>
  \<^verbatim>\<open>HybridSearchEngine.__init__\<close>, after the connection to the collection has
  succeeded.
\<close>

definition new_engine :: "collection \<Rightarrow> real \<Rightarrow> real \<Rightarrow> engine" where
  "new_engine coll vw bw =
     \<lparr>vector_weight = vw, bm25_weight = bw, collection = coll, bm25_index = None,
      documents_corpus = [], documents_metadata = [], bm25_initialized = False\<rparr>"

text \<open>The dictionaries built by \<^verbatim>\<open>vector_search\<close> and \<^verbatim>\<open>bm25_search\<close>.\<close>

record vector_result =
  vr_content :: string
  vr_metadata :: metadata
  vr_vector_score :: real
  vr_rank :: nat

record bm25_result =
  br_content :: string
  br_metadata :: metadata
  br_bm25_score :: real
  br_rank :: nat

text \<open>
  The values of \<^verbatim>\<open>combined_results\<close> in \<^verbatim>\<open>hybrid_search\<close>; a rank key that was
  never set is \<open>None\<close>.
\<close>

record combined_result =
  cr_content :: string
  cr_metadata :: metadata
  cr_vector_score :: real
  cr_bm25_score :: real
  cr_vector_rank :: "nat option"
  cr_bm25_rank :: "nat option"

section \<open>Lexical index\<close>

text \<open>
  \<^verbatim>\<open>_initialize_bm25\<close>.  The loop over \<^verbatim>\<open>zip(results['documents'],
  results['metadatas'])\<close> tokenizes each document and stores its metadata with its
  index.  An exception of the collection or of the constructor is logged and raised
  again.
\<close>

definition tokenize :: "string \<Rightarrow> string list" where
  "tokenize doc = py_split (py_lower doc)"

definition initialize_bm25 :: "bm25_constructor \<Rightarrow> engine \<Rightarrow> error + engine" where
  "initialize_bm25 BM25Okapi e =
     (if bm25_initialized e then Inr e
      else case coll_get (collection e) of
        Inl err \<Rightarrow> Inl err
      | Inr (docs, metas) \<Rightarrow>
          if docs = [] then Inr e
          else
            let pairs = zip docs metas;
                corpus = map (\<lambda>(doc, m). tokenize doc) pairs;
                mds = map (\<lambda>(i, (doc, m)). m(''doc_index'' \<mapsto> MInt (int i))) (enumerate 0 pairs)
            in case BM25Okapi corpus of
                 Inl err \<Rightarrow> Inl err
               | Inr idx \<Rightarrow>
                   Inr (e\<lparr>documents_corpus := corpus, documents_metadata := mds,
                          bm25_index := Some idx, bm25_initialized := True\<rparr>))"

text \<open>
  The loop of \<^verbatim>\<open>bm25_search\<close> over \<^verbatim>\<open>enumerate(scored_docs[:n_results])\<close>; the
  first argument is \<^verbatim>\<open>rank\<close>.  An index outside the corpus raises.
\<close>

fun bm25_hits :: "nat \<Rightarrow> engine \<Rightarrow> (nat \<times> real) list \<Rightarrow> error + bm25_result list" where
  "bm25_hits rank e [] = Inr []"
| "bm25_hits rank e ((doc_index, score) # rest) =
     (if 0 < score then
        (if doc_index < length (documents_corpus e) \<and> doc_index < length (documents_metadata e)
         then (case bm25_hits (Suc rank) e rest of
                 Inl err \<Rightarrow> Inl err
               | Inr hits \<Rightarrow>
                   Inr (\<lparr>br_content = py_join (documents_corpus e ! doc_index),
                         br_metadata = documents_metadata e ! doc_index,
                         br_bm25_score = score,
                         br_rank = rank + 1\<rparr> # hits))
         else Inl IndexError)
      else bm25_hits (Suc rank) e rest)"

text \<open>
  \<^verbatim>\<open>bm25_search\<close>.  The lazy build happens before the \<^verbatim>\<open>try\<close> block, so its
  exception propagates; everything inside the block is answered with an empty list.
  The engine is returned because the build changes it.
\<close>

definition bm25_search ::
  "bm25_constructor \<Rightarrow> engine \<Rightarrow> string \<Rightarrow> int \<Rightarrow> error + (bm25_result list \<times> engine)" where
  "bm25_search BM25Okapi e0 query n_results =
     (case (if \<not> bm25_initialized e0 then initialize_bm25 BM25Okapi e0 else Inr e0) of
        Inl err \<Rightarrow> Inl err
      | Inr e \<Rightarrow>
          (case bm25_index e of
             None \<Rightarrow> Inr ([], e)
           | Some get_scores \<Rightarrow>
               (case get_scores (py_split (py_lower query)) of
                  Inl err \<Rightarrow> Inr ([], e)
                | Inr scores \<Rightarrow>
                    let scored_docs = sort_desc snd (enumerate 0 scores)
                    in case bm25_hits 0 e (py_take n_results scored_docs) of
                         Inl err \<Rightarrow> Inr ([], e)
                       | Inr search_results \<Rightarrow> Inr (search_results, e))))"

section \<open>Vector branch\<close>

text \<open>
  The loop of \<^verbatim>\<open>vector_search\<close>; the first argument is the index \<^verbatim>\<open>i\<close>.  The
  division raises when \<open>1 + distance = 0\<close>.
\<close>

fun vector_hits :: "nat \<Rightarrow> (string \<times> metadata \<times> real) list \<Rightarrow> error + vector_result list" where
  "vector_hits i [] = Inr []"
| "vector_hits i ((doc, md, distance) # rest) =
     (if 1 + distance = 0 then Inl ZeroDivisionError
      else case vector_hits (Suc i) rest of
        Inl err \<Rightarrow> Inl err
      | Inr hits \<Rightarrow>
          Inr (\<lparr>vr_content = doc, vr_metadata = md,
                vr_vector_score = 1 / (1 + distance), vr_rank = i + 1\<rparr> # hits))"

text \<open>\<^verbatim>\<open>vector_search\<close>: any exception is logged and answered with an empty list.\<close>

definition vector_search :: "engine \<Rightarrow> string \<Rightarrow> int \<Rightarrow> vector_result list" where
  "vector_search e query n_results =
     (case coll_query (collection e) query n_results of
        Inl err \<Rightarrow> []
      | Inr results \<Rightarrow>
          (case vector_hits 0 (zip (documents results)
                                   (zip (metadatas results) (distances results))) of
             Inl err \<Rightarrow> []
           | Inr search_results \<Rightarrow> search_results))"

section \<open>Hybrid fusion and ranking\<close>

text \<open>
  \<^verbatim>\<open>result['metadata'].get('url', result['metadata'].get('id', ''))\<close>: the
  \<^verbatim>\<open>id\<close> is the default of the lookup of \<^verbatim>\<open>url\<close>.
\<close>

definition doc_key :: "metadata \<Rightarrow> mvalue" where
  "doc_key md = dict_get md ''url'' (dict_get md ''id'' (MStr []))"

text \<open>
  \<^verbatim>\<open>combined_results\<close> is a Python dictionary: an association list in insertion
  order, where assigning to a key that is present replaces its value in place.
\<close>

type_synonym combined = "(mvalue \<times> combined_result) list"

text \<open>
  The dictionary literal stored for a vector result, and the one stored for a lexical
  result whose key is new.
\<close>

definition vector_entry :: "vector_result \<Rightarrow> combined_result" where
  "vector_entry result =
     \<lparr>cr_content = vr_content result, cr_metadata = vr_metadata result,
      cr_vector_score = vr_vector_score result, cr_bm25_score = 0,
      cr_vector_rank = Some (vr_rank result), cr_bm25_rank = None\<rparr>"

definition bm25_entry :: "bm25_result \<Rightarrow> combined_result" where
  "bm25_entry result =
     \<lparr>cr_content = br_content result, cr_metadata = br_metadata result,
      cr_vector_score = 0, cr_bm25_score = br_bm25_score result,
      cr_vector_rank = None, cr_bm25_rank = Some (br_rank result)\<rparr>"

text \<open>
  The loop \<^verbatim>\<open>for result in vector_results\<close>: its body, and the loop over the
  list.
\<close>

definition add_vector_result :: "vector_result \<Rightarrow> combined \<Rightarrow> combined" where
  "add_vector_result result combined_results =
     (let doc_id = doc_key (vr_metadata result)
      in if truthy doc_id
         then AList.update doc_id (vector_entry result) combined_results
         else combined_results)"

fun process_vector :: "vector_result list \<Rightarrow> combined \<Rightarrow> combined" where
  "process_vector [] combined_results = combined_results"
| "process_vector (result # rest) combined_results =
     process_vector rest (add_vector_result result combined_results)"

text \<open>
  The loop \<^verbatim>\<open>for result in bm25_results\<close>: a key that is present gets the
  lexical score and rank, a new key gets an entry of its own.
\<close>

definition add_bm25_result :: "bm25_result \<Rightarrow> combined \<Rightarrow> combined" where
  "add_bm25_result result combined_results =
     (let doc_id = doc_key (br_metadata result)
      in if truthy doc_id
         then (case map_of combined_results doc_id of
                 Some entry \<Rightarrow>
                   AList.update doc_id
                     (entry\<lparr>cr_bm25_score := br_bm25_score result,
                            cr_bm25_rank := Some (br_rank result)\<rparr>)
                     combined_results
               | None \<Rightarrow> AList.update doc_id (bm25_entry result) combined_results)
         else combined_results)"

fun process_bm25 :: "bm25_result list \<Rightarrow> combined \<Rightarrow> combined" where
  "process_bm25 [] combined_results = combined_results"
| "process_bm25 (result # rest) combined_results =
     process_bm25 rest (add_bm25_result result combined_results)"

text \<open>
  \<^verbatim>\<open>c[:500] + '...' if len(c) > 500 else c\<close>, the display form of a content string.
\<close>

definition display_content :: "string \<Rightarrow> string" where
  "display_content c = (if length c > 500 then take 500 c @ ''...'' else c)"

text \<open>The body of the loop \<^verbatim>\<open>for doc_id, result in combined_results.items()\<close>.\<close>

definition make_result :: "real \<Rightarrow> real \<Rightarrow> mvalue \<times> combined_result \<Rightarrow> SearchResult" where
  "make_result vw bw p =
     (let doc_id = fst p; result = snd p;
          vscore = cr_vector_score result;
          bscore = cr_bm25_score result;
          hscore = vw * vscore + bw * bscore
      in \<lparr>id_field = dict_get (cr_metadata result) ''id'' doc_id,
          title = dict_get (cr_metadata result) ''title'' (MStr ''Unknown''),
          content = display_content (cr_content result),
          url = dict_get (cr_metadata result) ''url'' (MStr []),
          source = dict_get (cr_metadata result) ''source'' (MStr ''unknown''),
          category = dict_get (cr_metadata result) ''category'' (MStr ''unknown''),
          vector_score = vscore,
          bm25_score = bscore,
          hybrid_score = hscore,
          metadata = cr_metadata result\<rparr>)"

text \<open>
  The part of \<^verbatim>\<open>hybrid_search\<close> after the two branch calls: merge, score, sort,
  truncate.
\<close>

definition fuse ::
  "real \<Rightarrow> real \<Rightarrow> int \<Rightarrow> vector_result list \<Rightarrow> bm25_result list \<Rightarrow> SearchResult list" where
  "fuse vw bw n_results vector_results bm25_results =
     (let combined_results = process_bm25 bm25_results (process_vector vector_results []);
          final_results = map (make_result vw bw) combined_results
      in py_take n_results (sort_desc hybrid_score final_results))"

definition hybrid_search ::
  "bm25_constructor \<Rightarrow> engine \<Rightarrow> string \<Rightarrow> int \<Rightarrow> error + (SearchResult list \<times> engine)" where
  "hybrid_search BM25Okapi e query n_results =
     (let enhanced_query = enhance_query query;
          vector_results = vector_search e enhanced_query (n_results * 2)
      in case bm25_search BM25Okapi e enhanced_query (n_results * 2) of
           Inl err \<Rightarrow> Inl err
         | Inr (bm25_results, e') \<Rightarrow>
             Inr (fuse (vector_weight e') (bm25_weight e') n_results vector_results bm25_results,
                  e'))"

text \<open>The two list comprehensions of \<^verbatim>\<open>search\<close>.\<close>

definition vector_only_result :: "vector_result \<Rightarrow> SearchResult" where
  "vector_only_result r =
     \<lparr>id_field = dict_get (vr_metadata r) ''id'' (MStr []),
      title = dict_get (vr_metadata r) ''title'' (MStr ''Unknown''),
      content = display_content (vr_content r),
      url = dict_get (vr_metadata r) ''url'' (MStr []),
      source = dict_get (vr_metadata r) ''source'' (MStr ''unknown''),
      category = dict_get (vr_metadata r) ''category'' (MStr ''unknown''),
      vector_score = vr_vector_score r,
      bm25_score = 0,
      hybrid_score = vr_vector_score r,
      metadata = vr_metadata r\<rparr>"

definition bm25_only_result :: "bm25_result \<Rightarrow> SearchResult" where
  "bm25_only_result r =
     \<lparr>id_field = dict_get (br_metadata r) ''id'' (MStr []),
      title = dict_get (br_metadata r) ''title'' (MStr ''Unknown''),
      content = display_content (br_content r),
      url = dict_get (br_metadata r) ''url'' (MStr []),
      source = dict_get (br_metadata r) ''source'' (MStr ''unknown''),
      category = dict_get (br_metadata r) ''category'' (MStr ''unknown''),
      vector_score = 0,
      bm25_score = br_bm25_score r,
      hybrid_score = br_bm25_score r,
      metadata = br_metadata r\<rparr>"

text \<open>
  \<^verbatim>\<open>search\<close>: the main interface.  The last branch is the source's
  \<^verbatim>\<open>else:  # hybrid (default)\<close>.
\<close>

definition search ::
  "bm25_constructor \<Rightarrow> engine \<Rightarrow> string \<Rightarrow> int \<Rightarrow> string
     \<Rightarrow> error + (SearchResult list \<times> engine)" where
  "search BM25Okapi e query n_results search_type =
     (if search_type = ''vector'' then
        Inr (map vector_only_result (vector_search e query n_results), e)
      else if search_type = ''bm25'' then
        (case bm25_search BM25Okapi e query n_results of
           Inl err \<Rightarrow> Inl err
         | Inr (bm25_results, e') \<Rightarrow> Inr (map bm25_only_result bm25_results, e'))
      else hybrid_search BM25Okapi e query n_results)"

section \<open>The query enhancer as the specification words it\<close>

text \<open>
  The specification describes \<^verbatim>\<open>enhance\<close> as: lower-case the query, apply the
  misspelling table by substring replacement, then put the synonyms of a recognised
  token right after it, all other tokens keeping their order.  \<open>enhance_spec\<close>
  follows these words; it is compared with \<open>enhance_query\<close> below.
\<close>

definition expand_token :: "string \<Rightarrow> string list" where
  "expand_token w = w # (case map_of tech_synonyms w of Some syns \<Rightarrow> syns | None \<Rightarrow> [])"

definition enhance_spec :: "string \<Rightarrow> string" where
  "enhance_spec q =
     py_join (concat (map expand_token
       (py_split (foldl (\<lambda>s (wrong, correct). py_replace wrong correct s)
                        (py_lower q) common_misspellings))))"

section \<open>A built lexical index, and a small engine for the examples\<close>

text \<open>
  \<open>built_from BM25Okapi e0 e\<close>: the engine \<open>e\<close> is what \<^verbatim>\<open>_initialize_bm25\<close>
  leaves when it builds the index of the engine \<open>e0\<close>.
\<close>

definition built_from :: "bm25_constructor \<Rightarrow> engine \<Rightarrow> engine \<Rightarrow> bool" where
  "built_from BM25Okapi e0 e \<longleftrightarrow>
     \<not> bm25_initialized e0 \<and> initialize_bm25 BM25Okapi e0 = Inr e \<and> bm25_initialized e"

text \<open>The metadata list carries \<^verbatim>\<open>doc_index\<close> \<open>i\<close>, \<open>i + 1\<close>, ... in order.\<close>

fun doc_indexed :: "nat \<Rightarrow> metadata list \<Rightarrow> bool" where
  "doc_indexed i [] = True"
| "doc_indexed i (m # ms) = (m ''doc_index'' = Some (MInt (int i)) \<and> doc_indexed (Suc i) ms)"

text \<open>
  The examples need some index constructor to run.  \<open>overlap_okapi\<close> stands in for
  \<^verbatim>\<open>BM25Okapi\<close> there: it scores a document by the number of its tokens that occur
  in the query, and like the library it fails on an empty corpus.  No theorem depends
  on it; the theorems hold for every constructor.
\<close>

definition overlap_scores :: "string list list \<Rightarrow> bm25" where
  "overlap_scores corpus q = Inr (map (\<lambda>d. real (length (filter (\<lambda>t. t \<in> set q) d))) corpus)"

definition overlap_okapi :: bm25_constructor where
  "overlap_okapi corpus =
     (if corpus = [] then Inl ZeroDivisionError else Inr (overlap_scores corpus))"

definition demo_collection :: collection where
  "demo_collection =
     \<lparr>coll_get = Inr ([''Kiosk  mode'', ''windows'', ''kiosk''],
                      [[''url'' \<mapsto> MStr ''u1''], [''url'' \<mapsto> MStr ''u2''], [''id'' \<mapsto> MStr ''c'']]),
      coll_query = (\<lambda>q n. Inr \<lparr>documents = [''Kiosk  mode''],
                                metadatas = [[''url'' \<mapsto> MStr ''u1'', ''title'' \<mapsto> MStr ''K'']],
                                distances = [0]\<rparr>)\<rparr>"

definition demo_fresh :: engine where
  "demo_fresh = new_engine demo_collection (7/10) (3/10)"

definition demo_engine :: engine where
  "demo_engine =
     (case initialize_bm25 overlap_okapi demo_fresh of Inr e \<Rightarrow> e | Inl err \<Rightarrow> demo_fresh)"

text \<open>
  A collection that is unreachable: every call raises.  \<open>demo_down\<close> is the example
  engine after its store went away (the lexical index was built before);
  \<open>fresh_down\<close> is a new engine on the unreachable store.
\<close>

definition down_collection :: collection where
  "down_collection = \<lparr>coll_get = Inl StoreError, coll_query = (\<lambda>q n. Inl StoreError)\<rparr>"

definition demo_down :: engine where
  "demo_down = demo_engine\<lparr>collection := down_collection\<rparr>"

definition fresh_down :: engine where
  "fresh_down = new_engine down_collection (7/10) (3/10)"

text \<open>
  Two vector results for the examples: one whose metadata has an empty \<^verbatim>\<open>url\<close> next
  to a non-empty \<^verbatim>\<open>id\<close>, and one that has an \<^verbatim>\<open>id\<close> and no \<^verbatim>\<open>url\<close> key.
\<close>

definition url_empty_hit :: vector_result where
  "url_empty_hit =
     \<lparr>vr_content = ''x'', vr_metadata = [''url'' \<mapsto> MStr [], ''id'' \<mapsto> MStr ''x''],
      vr_vector_score = 1, vr_rank = 1\<rparr>"

definition id_only_hit :: vector_result where
  "id_only_hit =
     \<lparr>vr_content = ''y'', vr_metadata = [''id'' \<mapsto> MStr ''y''],
      vr_vector_score = 1 / 2, vr_rank = 2\<rparr>"

text \<open>An engine whose store answers every query with one candidate at distance \<open>-1\<close>.\<close>

definition minus_one_engine :: engine where
  "minus_one_engine =
     new_engine
       \<lparr>coll_get = Inl StoreError,
        coll_query = (\<lambda>q n. Inr \<lparr>documents = [''a''], metadatas = [Map.empty],
                                  distances = [- 1]\<rparr>)\<rparr>
       (7/10) (3/10)"

text \<open>
  The example engine with a store that answers every query with one candidate at
  distance 0 whose metadata has an empty \<^verbatim>\<open>url\<close> and the \<^verbatim>\<open>id\<close> \<^verbatim>\<open>x\<close>.
\<close>

definition empty_url_engine :: engine where
  "empty_url_engine =
     demo_engine\<lparr>collection :=
       \<lparr>coll_get = coll_get demo_collection,
        coll_query = (\<lambda>q n. Inr \<lparr>documents = [''x''],
                                  metadatas = [[''url'' \<mapsto> MStr [], ''id'' \<mapsto> MStr ''x'']],
                                  distances = [0]\<rparr>)\<rparr>\<rparr>"

text \<open>
  The example engine with a store that answers every query with two candidates that
  share the \<^verbatim>\<open>url\<close> \<^verbatim>\<open>u9\<close>: the first at distance 0, the second at distance 1.
\<close>

definition dup_engine :: engine where
  "dup_engine =
     demo_engine\<lparr>collection :=
       \<lparr>coll_get = coll_get demo_collection,
        coll_query = (\<lambda>q n. Inr \<lparr>documents = [''chunk one'', ''chunk two''],
                                  metadatas = [[''url'' \<mapsto> MStr ''u9''], [''url'' \<mapsto> MStr ''u9'']],
                                  distances = [0, 1]\<rparr>)\<rparr>\<rparr>"




section \<open>Properties of the query enhancer\<close>

lemma expand_words_concat: "expand_words ws acc = acc @ concat (map expand_token ws)"
  by (induction ws arbitrary: acc) (auto simp: expand_token_def split: option.splits)

lemma fix_misspellings_foldl:
  "fix_misspellings tbl s = foldl (\<lambda>s (wrong, correct). py_replace wrong correct s) s tbl"
  by (induction tbl s rule: fix_misspellings.induct) auto

lemma split_from_spaces: "\<forall>c\<in>set t. is_space c \<Longrightarrow> split_from cur t = (if cur = [] then [] else [cur])"
  by (induction t arbitrary: cur) auto

lemma split_from_leading: "\<forall>c\<in>set l. is_space c \<Longrightarrow> split_from [] (l @ x) = split_from [] x"
  by (induction l) auto

lemma split_from_trailing: "\<forall>c\<in>set t. is_space c \<Longrightarrow> split_from cur (x @ t) = split_from cur x"
  by (induction x arbitrary: cur) (auto simp: split_from_spaces)

lemma py_split_padding:
  "\<forall>c\<in>set l. is_space c \<Longrightarrow> \<forall>c\<in>set t. is_space c \<Longrightarrow> py_split (l @ x @ t) = py_split x"
  by (simp add: py_split_def split_from_leading split_from_trailing)

lemma py_replace_space:
  "is_space c \<Longrightarrow> \<forall>b\<in>set (a # old). \<not> is_space b \<Longrightarrow>
   py_replace (a # old) new (c # s) = c # py_replace (a # old) new s"
  by auto

lemma py_replace_leading:
  "\<forall>c\<in>set l. is_space c \<Longrightarrow> \<forall>b\<in>set (a # old). \<not> is_space b \<Longrightarrow>
   py_replace (a # old) new (l @ s) = l @ py_replace (a # old) new s"
  by (induction l) auto

lemma prefix_before_spaces:
  assumes "\<forall>c\<in>set t. is_space c" "\<forall>b\<in>set p. \<not> is_space b"
  shows "prefix p (x @ t) \<longleftrightarrow> prefix p x"
proof
  assume "prefix p (x @ t)"
  then consider "prefix p x" | us where "p = x @ us" "prefix us t"
    by (auto simp: prefix_append)
  then show "prefix p x"
  proof cases
    case 1 then show ?thesis .
  next
    case 2
    have "us = []"
    proof (rule ccontr)
      assume "us \<noteq> []"
      then obtain u us' where "us = u # us'" by (cases us) auto
      with 2 have "u \<in> set t" "u \<in> set p" by (auto simp: prefix_def)
      with assms show False by blast
    qed
    with 2 show ?thesis by simp
  qed
qed (auto simp: prefix_def)

lemma py_replace_trailing:
  assumes "\<forall>c\<in>set t. is_space c" "\<forall>b\<in>set (a # old). \<not> is_space b"
  shows "py_replace (a # old) new (m @ t) = py_replace (a # old) new m @ t"
proof (induction m rule: length_induct)
  case (1 m)
  show ?case
  proof (cases m)
    case Nil
    then show ?thesis using py_replace_leading[OF assms, of new "[]"] by simp
  next
    case (Cons c cs)
    have pre: "prefix (a # old) (c # cs @ t) = prefix (a # old) (c # cs)"
      using prefix_before_spaces[OF assms, of "c # cs"] by (simp only: append_Cons)
    show ?thesis
    proof (cases "prefix (a # old) (c # cs)")
      case True
      then have len: "length old \<le> length cs" by (auto simp: prefix_def)
      have ih: "py_replace (a # old) new (drop (length old) cs @ t) =
            py_replace (a # old) new (drop (length old) cs) @ t"
        using 1 Cons by simp
      have "py_replace (a # old) new (c # cs @ t) =
            new @ py_replace (a # old) new (drop (length old) (cs @ t))"
        by (simp only: py_replace.simps pre True if_True)
      also have "\<dots> = new @ py_replace (a # old) new (drop (length old) cs) @ t"
        using len ih by simp
      also have "\<dots> = py_replace (a # old) new (c # cs) @ t"
        by (simp only: py_replace.simps True if_True append_assoc)
      finally show ?thesis using Cons by simp
    next
      case False
      have ih: "py_replace (a # old) new (cs @ t) = py_replace (a # old) new cs @ t"
        using 1 Cons by simp
      have "py_replace (a # old) new (c # cs @ t) = c # py_replace (a # old) new (cs @ t)"
        by (simp only: py_replace.simps pre False if_False)
      also have "\<dots> = py_replace (a # old) new (c # cs) @ t"
        by (simp only: py_replace.simps False if_False ih append_Cons)
      finally show ?thesis using Cons by simp
    qed
  qed
qed

lemma py_replace_padding:
  assumes "\<forall>c\<in>set l. is_space c" "\<forall>c\<in>set t. is_space c" "old \<noteq> []" "\<forall>b\<in>set old. \<not> is_space b"
  shows "py_replace old new (l @ m @ t) = l @ py_replace old new m @ t"
proof -
  from assms(3) obtain a old' where old: "old = a # old'" by (cases old) auto
  show ?thesis
    using py_replace_leading[of l a old' new "m @ t"] py_replace_trailing[of t a old' new m] assms
    unfolding old by simp
qed

lemma fix_misspellings_padding:
  assumes "\<forall>c\<in>set l. is_space c" "\<forall>c\<in>set t. is_space c"
    and "\<forall>(w, c)\<in>set tbl. w \<noteq> [] \<and> (\<forall>b\<in>set w. \<not> is_space b)"
  shows "fix_misspellings tbl (l @ m @ t) = l @ fix_misspellings tbl m @ t"
  using assms(3)
proof (induction tbl m rule: fix_misspellings.induct)
  case (1 enhanced)
  then show ?case by simp
next
  case (2 wrong correct rest enhanced)
  then show ?case using py_replace_padding[OF assms(1,2), of wrong correct enhanced] by simp
qed

lemma strip_decomposition:
  "s = takeWhile is_space s @ py_strip s @ rev (takeWhile is_space (rev (dropWhile is_space s)))"
proof -
  let ?d = "dropWhile is_space s"
  have "rev ?d = takeWhile is_space (rev ?d) @ dropWhile is_space (rev ?d)" by simp
  then have "?d = rev (dropWhile is_space (rev ?d)) @ rev (takeWhile is_space (rev ?d))"
    by (metis rev_append rev_rev_ident)
  then show ?thesis
    unfolding py_strip_def by (metis takeWhile_dropWhile_id)
qed

lemma misspellings_wellformed:
  "\<forall>(w, c)\<in>set common_misspellings. w \<noteq> [] \<and> (\<forall>b\<in>set w. \<not> is_space b)"
  by (simp add: common_misspellings_def is_space_def)

lemma split_fix_strip:
  "py_split (fix_misspellings common_misspellings (py_strip s)) =
   py_split (fix_misspellings common_misspellings s)"
proof -
  let ?l = "takeWhile is_space s"
  let ?t = "rev (takeWhile is_space (rev (dropWhile is_space s)))"
  have l: "\<forall>c\<in>set ?l. is_space c" by (auto dest: set_takeWhileD)
  have t: "\<forall>c\<in>set ?t. is_space c" by (auto dest: set_takeWhileD)
  have "fix_misspellings common_misspellings (?l @ py_strip s @ ?t) =
        ?l @ fix_misspellings common_misspellings (py_strip s) @ ?t"
    by (rule fix_misspellings_padding[OF l t misspellings_wellformed])
  then have "py_split (fix_misspellings common_misspellings (?l @ py_strip s @ ?t)) =
        py_split (fix_misspellings common_misspellings (py_strip s))"
    using py_split_padding[OF l t] by simp
  then show ?thesis using strip_decomposition[of s] by simp
qed

text \<open>What the output is made of: no step brings in an upper-case letter.\<close>

lemma letters_disjoint: "set lower_letters \<inter> set upper_letters = {}"
  by (simp add: lower_letters_def upper_letters_def)

lemma letters_length: "length upper_letters = length lower_letters"
  by (simp add: lower_letters_def upper_letters_def)

lemma lower_char_not_upper: "lower_char c \<notin> set upper_letters"
proof (cases "map_of (zip upper_letters lower_letters) c")
  case None
  then have "c \<notin> set upper_letters"
    using map_of_zip_is_None[OF letters_length, of c] by simp
  with None show ?thesis by (simp add: lower_char_def)
next
  case (Some l)
  then have "l \<in> set lower_letters"
    by (auto dest!: map_of_SomeD set_zip_rightD)
  with letters_disjoint Some show ?thesis by (auto simp: lower_char_def)
qed

lemma py_lower_no_upper: "set (py_lower s) \<inter> set upper_letters = {}"
  using lower_char_not_upper by (auto simp: py_lower_def)

lemma set_py_strip: "set (py_strip s) \<subseteq> set s"
  by (auto simp: py_strip_def dest!: set_dropWhileD)

lemma set_py_replace: "set (py_replace old new s) \<subseteq> set s \<union> set new"
proof (induction old new s rule: py_replace.induct)
  case (1 new s)
  then show ?case by auto
next
  case (2 a old new)
  then show ?case by simp
next
  case (3 a old new c cs)
  show ?case
  proof (cases "prefix (a # old) (c # cs)")
    case True
    from 3(1)[OF True] have "set (py_replace (a # old) new (drop (length old) cs)) \<subseteq> set cs \<union> set new"
      using set_drop_subset[of "length old" cs] by blast
    with True show ?thesis by (auto simp del: Cons_prefix_Cons)
  next
    case False
    from 3(2)[OF False] False show ?thesis by (auto simp del: Cons_prefix_Cons)
  qed
qed

lemma set_fix_misspellings:
  "set (fix_misspellings tbl s) \<subseteq> set s \<union> (\<Union>p\<in>set tbl. set (snd p))"
proof (induction tbl s rule: fix_misspellings.induct)
  case (1 enhanced)
  then show ?case by simp
next
  case (2 wrong correct rest enhanced)
  with set_py_replace[of wrong correct enhanced] show ?case by auto
qed

lemma set_split_from: "w \<in> set (split_from cur s) \<Longrightarrow> set w \<subseteq> set cur \<union> set s"
proof (induction s arbitrary: cur)
  case Nil
  then show ?case by (auto split: if_splits)
next
  case (Cons c cs)
  show ?case
  proof (cases "is_space c")
    case True
    with Cons.prems have "w = cur \<or> w \<in> set (split_from [] cs)"
      by (auto split: if_splits)
    with Cons.IH[of "[]"] show ?thesis by auto
  next
    case False
    with Cons.prems have "w \<in> set (split_from (cur @ [c]) cs)" by simp
    from Cons.IH[OF this] show ?thesis by auto
  qed
qed

lemma set_py_join: "set (py_join ws) \<subseteq> (\<Union>w\<in>set ws. set w) \<union> {CHR '' ''}"
  by (induction ws rule: py_join.induct) auto

lemma misspellings_lower: "(\<Union>p\<in>set common_misspellings. set (snd p)) \<inter> set upper_letters = {}"
  by (simp add: common_misspellings_def upper_letters_def)

lemma synonyms_lower:
  "map_of tech_synonyms w = Some syns \<Longrightarrow> v \<in> set syns \<Longrightarrow> set v \<inter> set upper_letters = {}"
proof -
  assume a: "map_of tech_synonyms w = Some syns" "v \<in> set syns"
  have "\<forall>p\<in>set tech_synonyms. \<forall>v\<in>set (snd p). set v \<inter> set upper_letters = {}"
    by (simp add: tech_synonyms_def upper_letters_def)
  with map_of_SomeD[OF a(1)] a(2) show ?thesis by force
qed

lemma space_not_upper: "CHR '' '' \<notin> set upper_letters"
  by (simp add: upper_letters_def)

lemma enhance_query_no_upper: "set (enhance_query q) \<inter> set upper_letters = {}"
proof -
  let ?U = "set upper_letters"
  let ?s = "fix_misspellings common_misspellings (py_strip (py_lower q))"
  have s: "set ?s \<inter> ?U = {}"
    using set_fix_misspellings[of common_misspellings "py_strip (py_lower q)"]
      set_py_strip[of "py_lower q"] py_lower_no_upper[of q] misspellings_lower
    by blast
  have tok: "set w \<inter> ?U = {}" if "w \<in> set (py_split ?s)" for w
    using set_split_from[of w "[]" ?s] that s by (auto simp: py_split_def)
  have ex: "set v \<inter> ?U = {}" if "v \<in> set (concat (map expand_token (py_split ?s)))" for v
  proof -
    from that obtain w where w: "w \<in> set (py_split ?s)" "v \<in> set (expand_token w)" by auto
    show ?thesis
    proof (cases "v = w")
      case True
      with tok[OF w(1)] show ?thesis by simp
    next
      case False
      with w(2) obtain syns where "map_of tech_synonyms w = Some syns" "v \<in> set syns"
        by (cases "map_of tech_synonyms w") (auto simp: expand_token_def)
      then show ?thesis by (rule synonyms_lower)
    qed
  qed
  have "enhance_query q = py_join (concat (map expand_token (py_split ?s)))"
    by (simp add: enhance_query_def Let_def expand_words_concat)
  then show ?thesis
    using set_py_join[of "concat (map expand_token (py_split ?s))"] ex space_not_upper
    by (auto simp del: set_concat)
qed

text \<open>
  C8.  For every query, \<open>enhance_query\<close> computes what the specification describes:
  the lower-cased query with the misspelling table applied by substring replacement,
  split into tokens, each recognised token followed at once by its synonyms and all
  tokens in their original order (the source's extra \<^verbatim>\<open>strip\<close> changes nothing); and
  the enhanced query of every query has no upper-case letter.  The query
  \<^verbatim>\<open>andriod mdm setup\<close> becomes a string that holds \<^verbatim>\<open>android\<close> and
  \<^verbatim>\<open>mobile device management\<close>; so does the same query in mixed case with extra
  blanks; a no-break space separates tokens; a misspelling is replaced inside a longer
  word; the letter 0xC0 becomes 0xE0; the empty query yields the empty string.
\<close>

theorem enhance_query_expands_in_place:
  "enhance_query q = enhance_spec q \<and>
   set (enhance_query q) \<inter> set upper_letters = {} \<and>
   enhance_query ''andriod mdm setup'' =
     ''android android device mobile device mdm mobile device management device management setup'' \<and>
   enhance_query ''  Andriod   MDM Setup '' =
     ''android android device mobile device mdm mobile device management device management setup'' \<and>
   enhance_query (''MDM'' @ [CHR 0xA0] @ ''SETUP'') =
     ''mdm mobile device management device management setup'' \<and>
   enhance_query ''xxAndriodyy'' = ''xxandroidyy'' \<and>
   enhance_query [CHR 0xC0] = [CHR 0xE0] \<and>
   enhance_query [] = []"
proof -
  have "enhance_query q = enhance_spec q"
    unfolding enhance_query_def enhance_spec_def Let_def
    by (simp add: expand_words_concat split_fix_strip fix_misspellings_foldl[symmetric])
  moreover have "enhance_query ''andriod mdm setup'' =
     ''android android device mobile device mdm mobile device management device management setup''"
    by code_simp
  moreover have "enhance_query ''  Andriod   MDM Setup '' =
     ''android android device mobile device mdm mobile device management device management setup''"
    by code_simp
  moreover have "enhance_query (''MDM'' @ [CHR 0xA0] @ ''SETUP'') =
     ''mdm mobile device management device management setup''"
    by code_simp
  moreover have "enhance_query ''xxAndriodyy'' = ''xxandroidyy''"
    by code_simp
  moreover have "enhance_query [CHR 0xC0] = [CHR 0xE0]"
    by code_simp
  moreover have "enhance_query [] = []"
    by code_simp
  ultimately show ?thesis using enhance_query_no_upper by (intro conjI)
qed

section \<open>Sorting and slicing\<close>

lemma insort_key_tie:
  fixes f :: "'a \<Rightarrow> real" and g :: "'a \<Rightarrow> nat"
  assumes "sorted_wrt (\<lambda>x y. f x \<le> f y \<and> (f x = f y \<longrightarrow> g x < g y)) ys"
    and "\<forall>y\<in>set ys. g x < g y"
  shows "sorted_wrt (\<lambda>x y. f x \<le> f y \<and> (f x = f y \<longrightarrow> g x < g y)) (insort_key f x ys)"
  using assms by (induction ys) (auto simp: set_insort_key)

lemma sort_key_tie:
  fixes f :: "'a \<Rightarrow> real" and g :: "'a \<Rightarrow> nat"
  assumes "sorted_wrt (\<lambda>x y. g x < g y) xs"
  shows "sorted_wrt (\<lambda>x y. f x \<le> f y \<and> (f x = f y \<longrightarrow> g x < g y)) (sort_key f xs)"
  using assms by (induction xs) (auto intro!: insort_key_tie)

lemma sort_desc_tie:
  assumes "sorted_wrt (\<lambda>x y. g x < g y) xs"
  shows "sorted_wrt (\<lambda>x y. f y \<le> f x \<and> (f x = f y \<longrightarrow> (g x :: nat) < g y)) (sort_desc f xs)"
  using sort_key_tie[OF assms, of "\<lambda>x. - f x"] by (simp add: sort_desc_def)

lemma sorted_wrt_py_take: "sorted_wrt R xs \<Longrightarrow> sorted_wrt R (py_take n xs)"
  by (simp add: py_take_def)

lemma length_py_take: "0 \<le> n \<Longrightarrow> length (py_take n xs) \<le> nat n"
  by (simp add: py_take_def)

lemma set_py_take: "set (py_take n xs) \<subseteq> set xs"
  by (auto simp: py_take_def dest: in_set_takeD)

lemma enumerate_fst_sorted: "sorted_wrt (\<lambda>x y. fst x < fst y) (enumerate 0 xs)"
  using sorted_wrt_map[of "(<)" fst "enumerate 0 xs"] by simp

section \<open>The lexical branch\<close>

lemma bm25_hits_Cons_pos:
  assumes "bm25_hits rank e ((i, s) # rest) = Inr hits" "0 < s"
  shows "i < length (documents_corpus e) \<and> i < length (documents_metadata e) \<and>
         (\<exists>hits'. bm25_hits (Suc rank) e rest = Inr hits' \<and>
            hits = \<lparr>br_content = py_join (documents_corpus e ! i),
                     br_metadata = documents_metadata e ! i,
                     br_bm25_score = s, br_rank = rank + 1\<rparr> # hits')"
proof -
  have b: "i < length (documents_corpus e) \<and> i < length (documents_metadata e)"
    using assms by (simp split: if_splits)
  then show ?thesis
    using assms by (cases "bm25_hits (Suc rank) e rest") simp_all
qed

lemma bm25_hits_Cons_nonpos:
  assumes "bm25_hits rank e ((i, s) # rest) = Inr hits" "\<not> 0 < s"
  shows "bm25_hits (Suc rank) e rest = Inr hits"
  using assms by simp

lemma bm25_hits_shape:
  "bm25_hits rank e xs = Inr hits \<Longrightarrow>
   map (\<lambda>h. (br_content h, br_metadata h, br_bm25_score h)) hits =
     map (\<lambda>p. (py_join (documents_corpus e ! fst p), documents_metadata e ! fst p, snd p))
         (filter (\<lambda>p. 0 < snd p) xs)"
proof (induction xs arbitrary: rank hits)
  case Nil
  then show ?case by simp
next
  case (Cons x xs)
  obtain i s where x: "x = (i, s)" by (cases x)
  show ?case
  proof (cases "0 < s")
    case True
    from bm25_hits_Cons_pos[OF Cons.prems[unfolded x] True]
    obtain hits' where h: "bm25_hits (Suc rank) e xs = Inr hits'"
      "hits = \<lparr>br_content = py_join (documents_corpus e ! i),
                     br_metadata = documents_metadata e ! i,
                     br_bm25_score = s, br_rank = rank + 1\<rparr> # hits'"
      by blast
    from Cons.IH[OF h(1)] show ?thesis using True by (simp add: x h(2))
  next
    case False
    from Cons.IH[OF bm25_hits_Cons_nonpos[OF Cons.prems[unfolded x] False]]
    show ?thesis using False by (simp add: x)
  qed
qed

lemma bm25_hits_in_range:
  "bm25_hits rank e xs = Inr hits \<Longrightarrow> p \<in> set xs \<Longrightarrow> 0 < snd p \<Longrightarrow>
   fst p < length (documents_corpus e) \<and> fst p < length (documents_metadata e)"
proof (induction xs arbitrary: rank hits)
  case Nil
  then show ?case by simp
next
  case (Cons x xs)
  obtain i s where x: "x = (i, s)" by (cases x)
  show ?case
  proof (cases "0 < s")
    case True
    from bm25_hits_Cons_pos[OF Cons.prems(1)[unfolded x] True]
    obtain hits' where h: "bm25_hits (Suc rank) e xs = Inr hits'"
      and b: "i < length (documents_corpus e) \<and> i < length (documents_metadata e)"
      by blast
    show ?thesis
    proof (cases "p = x")
      case True
      with b x show ?thesis by simp
    next
      case False
      with Cons.prems(2) have "p \<in> set xs" by simp
      from Cons.IH[OF h this Cons.prems(3)] show ?thesis .
    qed
  next
    case False
    with Cons.prems(3) x have "p \<noteq> x" by auto
    with Cons.prems(2) have "p \<in> set xs" by simp
    from Cons.IH[OF bm25_hits_Cons_nonpos[OF Cons.prems(1)[unfolded x] False] this Cons.prems(3)]
    show ?thesis .
  qed
qed

lemma bm25_search_shape:
  assumes "bm25_search BM25Okapi e0 query n = Inr (hits, e)"
  shows "hits = [] \<or>
         (\<exists>get_scores scores. bm25_index e = Some get_scores \<and>
            get_scores (py_split (py_lower query)) = Inr scores \<and>
            bm25_hits 0 e (py_take n (sort_desc snd (enumerate 0 scores))) = Inr hits)"
  using assms unfolding bm25_search_def
  by (auto split: if_splits sum.splits option.splits simp: Let_def)

lemma bm25_search_built:
  assumes "bm25_initialized e"
  shows "\<exists>hits. bm25_search BM25Okapi e query n = Inr (hits, e)"
  using assms unfolding bm25_search_def
  by (auto split: sum.splits option.splits simp: Let_def)


lemma bm25_search_ranked:
  assumes "bm25_search BM25Okapi e0 query n = Inr (hits, e)" "hits \<noteq> []"
  obtains scores where
    "map (\<lambda>h. (br_content h, br_metadata h, br_bm25_score h)) hits =
       map (\<lambda>p. (py_join (documents_corpus e ! fst p), documents_metadata e ! fst p, snd p))
         (filter (\<lambda>p. 0 < snd p) (py_take n (sort_desc snd (enumerate 0 scores))))"
    "\<forall>p\<in>set (filter (\<lambda>p. 0 < snd p) (py_take n (sort_desc snd (enumerate 0 scores)))).
       fst p < length (documents_corpus e) \<and> fst p < length (documents_metadata e)"
proof -
  from bm25_search_shape[OF assms(1)] assms(2) obtain get_scores scores where
    h: "bm25_hits 0 e (py_take n (sort_desc snd (enumerate 0 scores))) = Inr hits"
    by blast
  show thesis
  proof (rule that[of scores])
    show "map (\<lambda>h. (br_content h, br_metadata h, br_bm25_score h)) hits =
       map (\<lambda>p. (py_join (documents_corpus e ! fst p), documents_metadata e ! fst p, snd p))
         (filter (\<lambda>p. 0 < snd p) (py_take n (sort_desc snd (enumerate 0 scores))))"
      by (rule bm25_hits_shape[OF h])
    show "\<forall>p\<in>set (filter (\<lambda>p. 0 < snd p) (py_take n (sort_desc snd (enumerate 0 scores)))).
       fst p < length (documents_corpus e) \<and> fst p < length (documents_metadata e)"
      using bm25_hits_in_range[OF h] by simp
  qed
qed

lemma ranked_sorted:
  "sorted_wrt (\<lambda>x y. snd y \<le> snd x \<and> (snd x = snd y \<longrightarrow> fst x < fst y))
     (filter (\<lambda>p. 0 < snd p) (py_take n (sort_desc snd (enumerate 0 (scores :: real list)))))"
  by (intro sorted_wrt_filter sorted_wrt_py_take sort_desc_tie enumerate_fst_sorted)

lemma shape_scores:
  assumes "map (\<lambda>h. (br_content h, br_metadata h, br_bm25_score h)) hits =
       map (\<lambda>p. (py_join (documents_corpus e ! fst p), documents_metadata e ! fst p, snd p)) ps"
  shows "map br_bm25_score hits = map snd ps"
    and "map br_metadata hits = map (\<lambda>p. documents_metadata e ! fst p) ps"
    and "map br_content hits = map (\<lambda>p. py_join (documents_corpus e ! fst p)) ps"
proof -
  have "map (snd \<circ> snd) (map (\<lambda>h. (br_content h, br_metadata h, br_bm25_score h)) hits) = map snd ps"
    unfolding assms by simp
  then show "map br_bm25_score hits = map snd ps" by (simp add: comp_def)
  have "map (fst \<circ> snd) (map (\<lambda>h. (br_content h, br_metadata h, br_bm25_score h)) hits) =
        map (\<lambda>p. documents_metadata e ! fst p) ps"
    unfolding assms by simp
  then show "map br_metadata hits = map (\<lambda>p. documents_metadata e ! fst p) ps" by (simp add: comp_def)
  have "map fst (map (\<lambda>h. (br_content h, br_metadata h, br_bm25_score h)) hits) =
        map (\<lambda>p. py_join (documents_corpus e ! fst p)) ps"
    unfolding assms by simp
  then show "map br_content hits = map (\<lambda>p. py_join (documents_corpus e ! fst p)) ps" by (simp add: comp_def)
qed

lemma doc_indexed_enumerate:
  "doc_indexed n (map (\<lambda>(i, (doc, m)). m(''doc_index'' \<mapsto> MInt (int i))) (enumerate n pairs))"
  by (induction pairs arbitrary: n) auto

lemma doc_indexed_nth:
  "doc_indexed n ms \<Longrightarrow> i < length ms \<Longrightarrow> (ms ! i) ''doc_index'' = Some (MInt (int (n + i)))"
proof (induction ms arbitrary: n i)
  case Nil
  then show ?case by simp
next
  case (Cons m ms)
  then show ?case by (cases i) auto
qed

lemma built_from_fields:
  assumes "built_from BM25Okapi e0 e"
  obtains docs metas idx where
    "coll_get (collection e0) = Inr (docs, metas)"
    "documents_corpus e = map (\<lambda>(doc, m). tokenize doc) (zip docs metas)"
    "documents_metadata e =
       map (\<lambda>(i, (doc, m)). m(''doc_index'' \<mapsto> MInt (int i))) (enumerate 0 (zip docs metas))"
    "bm25_index e = Some idx"
    "BM25Okapi (documents_corpus e) = Inr idx"
    "vector_weight e = vector_weight e0" "bm25_weight e = bm25_weight e0"
    "collection e = collection e0"
proof -
  from assms have ni: "\<not> bm25_initialized e0" and init: "initialize_bm25 BM25Okapi e0 = Inr e"
    and bi: "bm25_initialized e"
    by (simp_all add: built_from_def)
  obtain docs metas where g: "coll_get (collection e0) = Inr (docs, metas)"
    using init ni unfolding initialize_bm25_def by (auto split: sum.splits)
  have ne: "docs \<noteq> []"
    using init ni bi g unfolding initialize_bm25_def by (auto split: if_splits)
  let ?corpus = "map (\<lambda>(doc, m). tokenize doc) (zip docs metas)"
  obtain idx where b: "BM25Okapi ?corpus = Inr idx"
    using init ni g ne unfolding initialize_bm25_def by (auto simp: Let_def split: sum.splits)
  have e: "e = e0\<lparr>documents_corpus := ?corpus,
        documents_metadata := map (\<lambda>(i, (doc, m)). m(''doc_index'' \<mapsto> MInt (int i))) (enumerate 0 (zip docs metas)),
        bm25_index := Some idx, bm25_initialized := True\<rparr>"
    using init ni g ne b unfolding initialize_bm25_def by (simp add: Let_def)
  show thesis
    by (rule that[of docs metas idx]) (simp_all add: g e b)
qed

lemma built_from_doc_indexed:
  assumes "built_from BM25Okapi e0 e"
  shows "doc_indexed 0 (documents_metadata e)"
proof (rule built_from_fields[OF assms])
  fix docs metas
  assume m: "documents_metadata e =
       map (\<lambda>(i, (doc, m)). m(''doc_index'' \<mapsto> MInt (int i))) (enumerate 0 (zip docs metas))"
  show ?thesis unfolding m by (rule doc_indexed_enumerate)
qed

lemma built_from_initialized: "built_from BM25Okapi e0 e \<Longrightarrow> bm25_initialized e"
  by (simp add: built_from_def)

section \<open>The example engine, evaluated\<close>

lemmas demo_defs = demo_engine_def demo_fresh_def new_engine_def initialize_bm25_def
  demo_collection_def overlap_okapi_def tokenize_def py_split_def py_lower_def lower_char_def
  upper_letters_def lower_letters_def is_space_def Let_def

text \<open>The example engine after its build, field by field.\<close>

lemma demo_engine_eval [code]:
  "demo_engine =
     \<lparr>vector_weight = 7/10, bm25_weight = 3/10, collection = demo_collection,
      bm25_index = Some (overlap_scores [[''kiosk'', ''mode''], [''windows''], [''kiosk'']]),
      documents_corpus = [[''kiosk'', ''mode''], [''windows''], [''kiosk'']],
      documents_metadata =
        [[''url'' \<mapsto> MStr ''u1'', ''doc_index'' \<mapsto> MInt 0],
         [''url'' \<mapsto> MStr ''u2'', ''doc_index'' \<mapsto> MInt 1],
         [''id'' \<mapsto> MStr ''c'', ''doc_index'' \<mapsto> MInt 2]],
      bm25_initialized = True\<rparr>"
  by (simp add: demo_defs enumerate_eq_zip)

lemma demo_initialized: "bm25_initialized demo_engine"
  by (simp add: demo_engine_eval)

lemma demo_built: "built_from overlap_okapi demo_fresh demo_engine"
  unfolding built_from_def by (simp add: demo_defs)

lemma demo_kiosk_scores:
  "map br_bm25_score (fst (projr (bm25_search overlap_okapi demo_engine ''kiosk'' 5))) = [1, 1]"
  by code_simp

section \<open>Claims about the lexical branch\<close>

text \<open>
  C4.  On an engine whose lexical index is built, \<open>bm25_search\<close> returns (it never
  raises), it returns at most \<open>k\<close> results for a count \<open>k \<ge> 0\<close>, the results are in
  descending order of BM25 score, and every result has a strictly positive score:
  documents scoring zero or less are left out even when fewer than \<open>k\<close> remain.
\<close>

theorem bm25_search_top_k_positive:
  assumes "bm25_initialized e"
  shows "\<exists>hits. bm25_search BM25Okapi e query k = Inr (hits, e) \<and>
           (0 \<le> k \<longrightarrow> length hits \<le> nat k) \<and>
           sorted_wrt (\<lambda>a b. br_bm25_score b \<le> br_bm25_score a) hits \<and>
           (\<forall>h\<in>set hits. 0 < br_bm25_score h)"
proof -
  obtain hits where res: "bm25_search BM25Okapi e query k = Inr (hits, e)"
    using bm25_search_built[OF assms] by blast
  have "(0 \<le> k \<longrightarrow> length hits \<le> nat k) \<and>
        sorted_wrt (\<lambda>a b. br_bm25_score b \<le> br_bm25_score a) hits \<and>
        (\<forall>h\<in>set hits. 0 < br_bm25_score h)"
  proof (cases "hits = []")
    case True
    then show ?thesis by simp
  next
    case False
    from bm25_search_ranked[OF res False] obtain scores where
      shape: "map (\<lambda>h. (br_content h, br_metadata h, br_bm25_score h)) hits =
       map (\<lambda>p. (py_join (documents_corpus e ! fst p), documents_metadata e ! fst p, snd p))
         (filter (\<lambda>p. 0 < snd p) (py_take k (sort_desc snd (enumerate 0 scores))))"
      by blast
    let ?ranked = "py_take k (sort_desc snd (enumerate 0 scores))"
    let ?pos = "filter (\<lambda>p. 0 < snd p) ?ranked"
    have sc: "map br_bm25_score hits = map snd ?pos"
      by (rule shape_scores(1)[OF shape])
    have len: "length hits = length ?pos"
      using arg_cong[OF sc, of length] by simp
    have l: "0 \<le> k \<longrightarrow> length hits \<le> nat k"
    proof
      assume k: "0 \<le> k"
      have "length ?pos \<le> length ?ranked" by (rule length_filter_le)
      also have "\<dots> \<le> nat k" by (rule length_py_take[OF k])
      finally show "length hits \<le> nat k" using len by simp
    qed
    have "sorted_wrt (\<lambda>x y. snd y \<le> snd x) ?pos"
      by (rule sorted_wrt_mono_rel[OF _ ranked_sorted]) simp
    then have "sorted_wrt (\<lambda>a b. b \<le> a) (map snd ?pos)"
      by (simp add: sorted_wrt_map)
    then have s: "sorted_wrt (\<lambda>a b. br_bm25_score b \<le> br_bm25_score a) hits"
      unfolding sc[symmetric] by (simp add: sorted_wrt_map)
    have "\<forall>x\<in>set (map snd ?pos). 0 < x" by auto
    then have p: "\<forall>h\<in>set hits. 0 < br_bm25_score h"
      unfolding sc[symmetric] by simp
    from l s p show ?thesis by blast
  qed
  with res show ?thesis by blast
qed

theorem bm25_search_top_k_positive_witness:
  "bm25_initialized demo_engine \<and>
   (\<exists>hits. bm25_search overlap_okapi demo_engine ''kiosk'' 1 = Inr (hits, demo_engine) \<and>
      length hits \<le> 1 \<and>
      sorted_wrt (\<lambda>a b. br_bm25_score b \<le> br_bm25_score a) hits \<and>
      (\<forall>h\<in>set hits. 0 < br_bm25_score h))"
  using bm25_search_top_k_positive[OF demo_initialized, where BM25Okapi = overlap_okapi
      and query = "''kiosk''" and k = 1] demo_initialized
  by auto

text \<open>
  C5.  On an engine whose lexical index was built by \<open>initialize_bm25\<close>, two results
  of \<open>bm25_search\<close> with equal scores stand in the order of their corpus positions:
  the earlier result carries the smaller \<^verbatim>\<open>doc_index\<close>.
\<close>

theorem bm25_search_ties_in_corpus_order:
  assumes "built_from BM25Okapi e0 e"
    and "bm25_search BM25Okapi e query k = Inr (hits, e')"
    and "a < b" and "b < length hits"
    and "br_bm25_score (hits ! a) = br_bm25_score (hits ! b)"
  shows "\<exists>i j. br_metadata (hits ! a) ''doc_index'' = Some (MInt (int i)) \<and>
               br_metadata (hits ! b) ''doc_index'' = Some (MInt (int j)) \<and> i < j"
proof -
  from assms(4) have ne: "hits \<noteq> []" by auto
  from bm25_search_built[OF built_from_initialized[OF assms(1)], of BM25Okapi query k] assms(2)
  have e': "e' = e" by auto
  from bm25_search_ranked[OF assms(2) ne] obtain scores where
    shape: "map (\<lambda>h. (br_content h, br_metadata h, br_bm25_score h)) hits =
       map (\<lambda>p. (py_join (documents_corpus e' ! fst p), documents_metadata e' ! fst p, snd p))
         (filter (\<lambda>p. 0 < snd p) (py_take k (sort_desc snd (enumerate 0 scores))))"
    and range: "\<forall>p\<in>set (filter (\<lambda>p. 0 < snd p) (py_take k (sort_desc snd (enumerate 0 scores)))).
       fst p < length (documents_corpus e') \<and> fst p < length (documents_metadata e')"
    by blast
  let ?ps = "filter (\<lambda>p. 0 < snd p) (py_take k (sort_desc snd (enumerate 0 scores)))"
  have sc: "map br_bm25_score hits = map snd ?ps"
    and md: "map br_metadata hits = map (\<lambda>p. documents_metadata e' ! fst p) ?ps"
    by (rule shape_scores[OF shape])+
  have len: "length hits = length ?ps"
    using arg_cong[OF sc, of length] by simp
  have a: "a < length ?ps" and b: "b < length ?ps"
    using assms(3,4) len by simp_all
  have sa: "br_bm25_score (hits ! a) = snd (?ps ! a)"
    using arg_cong[OF sc, of "\<lambda>xs. xs ! a"] a len by simp
  have sb: "br_bm25_score (hits ! b) = snd (?ps ! b)"
    using arg_cong[OF sc, of "\<lambda>xs. xs ! b"] b len by simp
  have ma: "br_metadata (hits ! a) = documents_metadata e ! fst (?ps ! a)"
    using arg_cong[OF md, of "\<lambda>xs. xs ! a"] a len e' by simp
  have mb: "br_metadata (hits ! b) = documents_metadata e ! fst (?ps ! b)"
    using arg_cong[OF md, of "\<lambda>xs. xs ! b"] b len e' by simp
  have "snd (?ps ! b) \<le> snd (?ps ! a) \<and> (snd (?ps ! a) = snd (?ps ! b) \<longrightarrow> fst (?ps ! a) < fst (?ps ! b))"
    using sorted_wrt_nth_less[OF ranked_sorted assms(3) b] .
  with assms(5) sa sb have lt: "fst (?ps ! a) < fst (?ps ! b)" by simp
  have ra: "fst (?ps ! a) < length (documents_metadata e)"
    using bspec[OF range nth_mem[OF a]] e' by simp
  have rb: "fst (?ps ! b) < length (documents_metadata e)"
    using bspec[OF range nth_mem[OF b]] e' by simp
  have ia: "br_metadata (hits ! a) ''doc_index'' = Some (MInt (int (fst (?ps ! a))))"
    using doc_indexed_nth[OF built_from_doc_indexed[OF assms(1)] ra] ma by simp
  have ib: "br_metadata (hits ! b) ''doc_index'' = Some (MInt (int (fst (?ps ! b))))"
    using doc_indexed_nth[OF built_from_doc_indexed[OF assms(1)] rb] mb by simp
  from ia ib lt show ?thesis by blast
qed

theorem bm25_search_ties_in_corpus_order_witness:
  "built_from overlap_okapi demo_fresh demo_engine \<and>
   (\<exists>hits. bm25_search overlap_okapi demo_engine ''kiosk'' 5 = Inr (hits, demo_engine) \<and>
      length hits = 2 \<and>
      br_bm25_score (hits ! 0) = br_bm25_score (hits ! 1) \<and>
      (\<exists>i j. br_metadata (hits ! 0) ''doc_index'' = Some (MInt (int i)) \<and>
             br_metadata (hits ! 1) ''doc_index'' = Some (MInt (int j)) \<and> i < j))"
proof -
  obtain hits where s: "bm25_search overlap_okapi demo_engine ''kiosk'' 5 = Inr (hits, demo_engine)"
    using bm25_search_built[OF demo_initialized] by blast
  have sc: "map br_bm25_score hits = [1, 1]"
    using demo_kiosk_scores s by simp
  then obtain x y where xy: "hits = [x, y]"
    by (auto simp: map_eq_Cons_conv)
  have len: "length hits = 2" and eq: "br_bm25_score (hits ! 0) = br_bm25_score (hits ! 1)"
    using sc xy by simp_all
  have "\<exists>i j. br_metadata (hits ! 0) ''doc_index'' = Some (MInt (int i)) \<and>
             br_metadata (hits ! 1) ''doc_index'' = Some (MInt (int j)) \<and> i < j"
    using bm25_search_ties_in_corpus_order[OF demo_built s, of 0 1] len eq by simp
  with demo_built s len eq show ?thesis by blast
qed

section \<open>The merge dictionary\<close>

lemma map_of_add_vector_result:
  "map_of (add_vector_result r c) k =
     (if truthy k \<and> doc_key (vr_metadata r) = k then Some (vector_entry r) else map_of c k)"
  by (auto simp: add_vector_result_def Let_def update_conv')

lemma map_of_add_bm25_result:
  "map_of (add_bm25_result r c) k =
     (if truthy k \<and> doc_key (br_metadata r) = k
      then Some (case map_of c k of
                   Some en \<Rightarrow> en\<lparr>cr_bm25_score := br_bm25_score r, cr_bm25_rank := Some (br_rank r)\<rparr>
                 | None \<Rightarrow> bm25_entry r)
      else map_of c k)"
  by (auto simp: add_bm25_result_def Let_def update_conv' split: option.splits)

lemma add_vector_result_distinct:
  "distinct (map fst c) \<Longrightarrow> distinct (map fst (add_vector_result r c))"
  by (simp add: add_vector_result_def Let_def distinct_update)

lemma add_bm25_result_distinct:
  "distinct (map fst c) \<Longrightarrow> distinct (map fst (add_bm25_result r c))"
  by (simp add: add_bm25_result_def Let_def distinct_update split: option.splits)

lemma process_vector_distinct:
  "distinct (map fst c) \<Longrightarrow> distinct (map fst (process_vector vs c))"
  by (induction vs arbitrary: c) (simp_all add: add_vector_result_distinct)

lemma process_bm25_distinct:
  "distinct (map fst c) \<Longrightarrow> distinct (map fst (process_bm25 bs c))"
  by (induction bs arbitrary: c) (simp_all add: add_bm25_result_distinct)

lemma process_vector_other:
  "\<forall>r\<in>set vs. doc_key (vr_metadata r) \<noteq> k \<Longrightarrow>
   map_of (process_vector vs c) k = map_of c k"
  by (induction vs arbitrary: c) (simp_all add: map_of_add_vector_result)

lemma process_vector_origin:
  "map_of (process_vector vs c) k = Some en \<Longrightarrow>
   map_of c k = Some en \<or>
   (\<exists>r\<in>set vs. doc_key (vr_metadata r) = k \<and> truthy k \<and> en = vector_entry r)"
proof (induction vs arbitrary: c)
  case Nil
  then show ?case by simp
next
  case (Cons v vs)
  from Cons.prems have "map_of (process_vector vs (add_vector_result v c)) k = Some en"
    by simp
  from Cons.IH[OF this] show ?case
    by (auto simp: map_of_add_vector_result split: if_splits)
qed

lemma process_vector_present:
  "r \<in> set vs \<Longrightarrow> truthy (doc_key (vr_metadata r)) \<Longrightarrow>
   \<exists>r'\<in>set vs. doc_key (vr_metadata r') = doc_key (vr_metadata r) \<and>
      map_of (process_vector vs c) (doc_key (vr_metadata r)) = Some (vector_entry r')"
proof (induction vs arbitrary: c r)
  case Nil
  then show ?case by simp
next
  case (Cons v vs)
  let ?k = "doc_key (vr_metadata r)"
  show ?case
  proof (cases "\<exists>r'\<in>set vs. doc_key (vr_metadata r') = ?k")
    case True
    then obtain r1 where r1: "r1 \<in> set vs" "doc_key (vr_metadata r1) = ?k" by blast
    with Cons.prems(2) have t: "truthy (doc_key (vr_metadata r1))" by simp
    from Cons.IH[OF r1(1) t, of "add_vector_result v c"] r1(2)
    show ?thesis by auto
  next
    case False
    with Cons.prems(1) have rv: "r = v" by auto
    from False have other: "\<forall>r'\<in>set vs. doc_key (vr_metadata r') \<noteq> ?k" by blast
    show ?thesis
      using Cons.prems(2) rv process_vector_other[OF other]
      by (simp add: map_of_add_vector_result)
  qed
qed

lemma process_bm25_other:
  "\<forall>r\<in>set bs. doc_key (br_metadata r) \<noteq> k \<Longrightarrow>
   map_of (process_bm25 bs c) k = map_of c k"
  by (induction bs arbitrary: c) (simp_all add: map_of_add_bm25_result)

text \<open>A key that is present keeps its content, metadata and vector score.\<close>

lemma process_bm25_existing:
  "map_of c k = Some en \<Longrightarrow>
   \<exists>en'. map_of (process_bm25 bs c) k = Some en' \<and>
     cr_content en' = cr_content en \<and> cr_metadata en' = cr_metadata en \<and>
     cr_vector_score en' = cr_vector_score en \<and>
     (cr_bm25_score en' = cr_bm25_score en \<or>
      (\<exists>r\<in>set bs. doc_key (br_metadata r) = k \<and> cr_bm25_score en' = br_bm25_score r))"
proof (induction bs arbitrary: c en)
  case Nil
  then show ?case by simp
next
  case (Cons b bs)
  let ?c1 = "add_bm25_result b c"
  show ?case
  proof (cases "truthy k \<and> doc_key (br_metadata b) = k")
    case True
    let ?en1 = "en\<lparr>cr_bm25_score := br_bm25_score b, cr_bm25_rank := Some (br_rank b)\<rparr>"
    have "map_of ?c1 k = Some ?en1"
      using True Cons.prems by (simp add: map_of_add_bm25_result)
    from Cons.IH[OF this] obtain en' where
      "map_of (process_bm25 bs ?c1) k = Some en'"
      "cr_content en' = cr_content en" "cr_metadata en' = cr_metadata en"
      "cr_vector_score en' = cr_vector_score en"
      "cr_bm25_score en' = br_bm25_score b \<or>
        (\<exists>r\<in>set bs. doc_key (br_metadata r) = k \<and> cr_bm25_score en' = br_bm25_score r)"
      by auto
    then show ?thesis using True by auto
  next
    case False
    then have "map_of ?c1 k = Some en"
      using Cons.prems by (auto simp: map_of_add_bm25_result)
    from Cons.IH[OF this] show ?thesis by auto
  qed
qed

text \<open>A key first brought by the lexical branch.\<close>

lemma process_bm25_new:
  "map_of c k = None \<Longrightarrow> r \<in> set bs \<Longrightarrow> doc_key (br_metadata r) = k \<Longrightarrow> truthy k \<Longrightarrow>
   \<exists>en' r1 r2. map_of (process_bm25 bs c) k = Some en' \<and>
     r1 \<in> set bs \<and> doc_key (br_metadata r1) = k \<and>
     r2 \<in> set bs \<and> doc_key (br_metadata r2) = k \<and>
     cr_content en' = br_content r1 \<and> cr_metadata en' = br_metadata r1 \<and>
     cr_vector_score en' = 0 \<and> cr_bm25_score en' = br_bm25_score r2"
proof (induction bs arbitrary: c)
  case Nil
  then show ?case by simp
next
  case (Cons b bs)
  let ?c1 = "add_bm25_result b c"
  show ?case
  proof (cases "doc_key (br_metadata b) = k")
    case True
    have "map_of ?c1 k = Some (bm25_entry b)"
      using True Cons.prems(1,4) by (simp add: map_of_add_bm25_result)
    from process_bm25_existing[OF this, of bs] obtain en' where en':
      "map_of (process_bm25 bs ?c1) k = Some en'"
      "cr_content en' = br_content b" "cr_metadata en' = br_metadata b"
      "cr_vector_score en' = 0"
      "cr_bm25_score en' = br_bm25_score b \<or>
        (\<exists>r\<in>set bs. doc_key (br_metadata r) = k \<and> cr_bm25_score en' = br_bm25_score r)"
      by (auto simp: bm25_entry_def)
    from en'(5) obtain r2 where "r2 \<in> set (b # bs)" "doc_key (br_metadata r2) = k"
      "cr_bm25_score en' = br_bm25_score r2"
      using True by auto
    with en'(1-4) True show ?thesis
      by (intro exI[of _ en'] exI[of _ b] exI[of _ r2]) simp
  next
    case False
    then have keep: "map_of ?c1 k = None"
      using Cons.prems(1) by (simp add: map_of_add_bm25_result)
    from False Cons.prems(2,3) have "r \<in> set bs" by auto
    from Cons.IH[OF keep this Cons.prems(3,4)] obtain en' r1 r2 where
      "map_of (process_bm25 bs ?c1) k = Some en'"
      "r1 \<in> set bs" "doc_key (br_metadata r1) = k"
      "r2 \<in> set bs" "doc_key (br_metadata r2) = k"
      "cr_content en' = br_content r1" "cr_metadata en' = br_metadata r1"
      "cr_vector_score en' = 0" "cr_bm25_score en' = br_bm25_score r2"
      by blast
    then show ?thesis
      by (intro exI[of _ en'] exI[of _ r1] exI[of _ r2]) simp
  qed
qed

lemma process_vector_falsy:
  "\<not> truthy k \<Longrightarrow> map_of (process_vector vs c) k = map_of c k"
  by (induction vs arbitrary: c) (simp_all add: map_of_add_vector_result)

lemma process_bm25_falsy:
  "\<not> truthy k \<Longrightarrow> map_of (process_bm25 bs c) k = map_of c k"
  by (induction bs arbitrary: c) (simp_all add: map_of_add_bm25_result)

text \<open>
  Where an entry of the merged dictionary comes from: its key is truthy, and either a
  vector result with this key gave content, metadata and vector score, or no vector
  result has the key and lexical results with this key gave content, metadata and
  score.
\<close>

lemma combined_entry_cases:
  assumes "map_of (process_bm25 bs (process_vector vs [])) k = Some en"
  shows "truthy k \<and>
    ((\<exists>v\<in>set vs. doc_key (vr_metadata v) = k \<and>
        cr_content en = vr_content v \<and> cr_metadata en = vr_metadata v \<and>
        cr_vector_score en = vr_vector_score v \<and>
        (cr_bm25_score en = 0 \<or>
         (\<exists>b\<in>set bs. doc_key (br_metadata b) = k \<and> cr_bm25_score en = br_bm25_score b))) \<or>
     ((\<forall>v\<in>set vs. doc_key (vr_metadata v) \<noteq> k) \<and>
      (\<exists>b1\<in>set bs. \<exists>b2\<in>set bs. doc_key (br_metadata b1) = k \<and> doc_key (br_metadata b2) = k \<and>
        cr_content en = br_content b1 \<and> cr_metadata en = br_metadata b1 \<and>
        cr_vector_score en = 0 \<and> cr_bm25_score en = br_bm25_score b2)))"
proof -
  let ?c0 = "process_vector vs []"
  have t: "truthy k"
  proof (rule ccontr)
    assume "\<not> truthy k"
    then have "map_of (process_bm25 bs ?c0) k = None"
      by (simp add: process_bm25_falsy process_vector_falsy)
    with assms show False by simp
  qed
  show ?thesis
  proof (cases "map_of ?c0 k")
    case (Some en0)
    from process_vector_origin[OF Some] obtain v where v: "v \<in> set vs"
      "doc_key (vr_metadata v) = k" "en0 = vector_entry v"
      by auto
    from process_bm25_existing[OF Some, of bs] assms have
      "cr_content en = cr_content en0" "cr_metadata en = cr_metadata en0"
      "cr_vector_score en = cr_vector_score en0"
      "cr_bm25_score en = cr_bm25_score en0 \<or>
        (\<exists>r\<in>set bs. doc_key (br_metadata r) = k \<and> cr_bm25_score en = br_bm25_score r)"
      by auto
    with v t show ?thesis
      by (auto simp: vector_entry_def)
  next
    case None
    have nov: "\<forall>v\<in>set vs. doc_key (vr_metadata v) \<noteq> k"
    proof
      fix v assume "v \<in> set vs"
      show "doc_key (vr_metadata v) \<noteq> k"
      proof
        assume "doc_key (vr_metadata v) = k"
        with process_vector_present[OF \<open>v \<in> set vs\<close>, of "[]"] t None show False by auto
      qed
    qed
    have "\<exists>r\<in>set bs. doc_key (br_metadata r) = k"
    proof (rule ccontr)
      assume "\<not> (\<exists>r\<in>set bs. doc_key (br_metadata r) = k)"
      then have "map_of (process_bm25 bs ?c0) k = map_of ?c0 k"
        by (intro process_bm25_other) blast
      with assms None show False by simp
    qed
    then obtain r where r: "r \<in> set bs" "doc_key (br_metadata r) = k" by blast
    from process_bm25_new[OF None r t] assms nov t show ?thesis
      by auto
  qed
qed

lemma combined_distinct: "distinct (map fst (process_bm25 bs (process_vector vs [])))"
  by (simp add: process_bm25_distinct process_vector_distinct)

lemma set_sort_desc: "set (sort_desc f xs) = set xs"
  by (simp add: sort_desc_def)

lemma fuse_member:
  assumes "r \<in> set (fuse vw bw n vs bs)"
  shows "\<exists>k en. map_of (process_bm25 bs (process_vector vs [])) k = Some en \<and>
           r = make_result vw bw (k, en)"
proof -
  from assms have "r \<in> set (sort_desc hybrid_score
      (map (make_result vw bw) (process_bm25 bs (process_vector vs []))))"
    using set_py_take by (fastforce simp: fuse_def Let_def)
  then have "r \<in> set (map (make_result vw bw) (process_bm25 bs (process_vector vs [])))"
    by (simp only: set_sort_desc)
  then obtain k en where "(k, en) \<in> set (process_bm25 bs (process_vector vs []))"
    "r = make_result vw bw (k, en)"
    by auto
  with combined_distinct[of bs vs] show ?thesis
    by (auto simp: map_of_eq_Some_iff)
qed

lemma make_result_simps:
  "vector_score (make_result vw bw (k, en)) = cr_vector_score en"
  "bm25_score (make_result vw bw (k, en)) = cr_bm25_score en"
  "hybrid_score (make_result vw bw (k, en)) = vw * cr_vector_score en + bw * cr_bm25_score en"
  "content (make_result vw bw (k, en)) = display_content (cr_content en)"
  "metadata (make_result vw bw (k, en)) = cr_metadata en"
  by (simp_all add: make_result_def Let_def)

section \<open>The vector branch, and what a search leaves unchanged\<close>

lemma vector_hits_Cons:
  assumes "vector_hits i ((doc, md, d) # rest) = Inr hits"
  shows "1 + d \<noteq> 0 \<and>
         (\<exists>hits'. vector_hits (Suc i) rest = Inr hits' \<and>
            hits = \<lparr>vr_content = doc, vr_metadata = md,
                     vr_vector_score = 1 / (1 + d), vr_rank = i + 1\<rparr> # hits')"
proof -
  have nz: "1 + d \<noteq> 0" using assms by (simp split: if_splits)
  then show ?thesis
    using assms by (cases "vector_hits (Suc i) rest") simp_all
qed

lemma vector_hits_shape:
  "vector_hits i xs = Inr hits \<Longrightarrow>
   map (\<lambda>h. (vr_content h, vr_metadata h, vr_vector_score h)) hits =
     map (\<lambda>p. (fst p, fst (snd p), 1 / (1 + snd (snd p)))) xs \<and>
   (\<forall>p\<in>set xs. 1 + snd (snd p) \<noteq> 0)"
proof (induction xs arbitrary: i hits)
  case Nil
  then show ?case by simp
next
  case (Cons x xs)
  obtain doc md d where x: "x = (doc, md, d)" by (cases x)
  from vector_hits_Cons[OF Cons.prems[unfolded x]] obtain hits' where
    nz: "1 + d \<noteq> 0" and h: "vector_hits (Suc i) xs = Inr hits'"
    and hs: "hits = \<lparr>vr_content = doc, vr_metadata = md,
                     vr_vector_score = 1 / (1 + d), vr_rank = i + 1\<rparr> # hits'"
    by blast
  from Cons.IH[OF h] show ?case using nz by (simp add: x hs)
qed

lemma vector_hits_total:
  "\<forall>p\<in>set xs. 1 + snd (snd p) \<noteq> 0 \<Longrightarrow> \<exists>hits. vector_hits i xs = Inr hits"
proof (induction xs arbitrary: i)
  case Nil
  then show ?case by simp
next
  case (Cons x xs)
  obtain doc md d where x: "x = (doc, md, d)" by (cases x)
  from Cons.prems have "\<forall>p\<in>set xs. 1 + snd (snd p) \<noteq> 0" by simp
  from Cons.IH[OF this, of "Suc i"] obtain hits' where "vector_hits (Suc i) xs = Inr hits'"
    by blast
  with Cons.prems show ?case by (simp add: x)
qed

lemma vector_hits_raises:
  "p \<in> set xs \<Longrightarrow> 1 + snd (snd p) = 0 \<Longrightarrow> vector_hits i xs = Inl ZeroDivisionError"
proof (induction xs arbitrary: i)
  case Nil
  then show ?case by simp
next
  case (Cons x xs)
  obtain doc md d where x: "x = (doc, md, d)" by (cases x)
  show ?case
  proof (cases "1 + d = 0")
    case True
    then show ?thesis by (simp add: x)
  next
    case False
    with Cons.prems x have "p \<in> set xs" by auto
    from Cons.IH[OF this Cons.prems(2), of "Suc i"] False show ?thesis by (simp add: x)
  qed
qed

text \<open>Every result of the vector branch pairs a candidate with \<open>1 / (1 + distance)\<close>.\<close>

lemma vector_search_member:
  assumes "v \<in> set (vector_search e query n)"
  shows "\<exists>results d. coll_query (collection e) query n = Inr results \<and>
           d \<in> set (distances results) \<and> 1 + d \<noteq> 0 \<and> vr_vector_score v = 1 / (1 + d)"
proof -
  from assms obtain results where q: "coll_query (collection e) query n = Inr results"
    unfolding vector_search_def by (cases "coll_query (collection e) query n") auto
  let ?cands = "zip (documents results) (zip (metadatas results) (distances results))"
  from assms q obtain hits where h: "vector_hits 0 ?cands = Inr hits" and vh: "v \<in> set hits"
    unfolding vector_search_def by (cases "vector_hits 0 ?cands") auto
  from vector_hits_shape[OF h] have
    m: "map (\<lambda>h. (vr_content h, vr_metadata h, vr_vector_score h)) hits =
        map (\<lambda>p. (fst p, fst (snd p), 1 / (1 + snd (snd p)))) ?cands"
    and nz: "\<forall>p\<in>set ?cands. 1 + snd (snd p) \<noteq> 0"
    by blast+
  from vh have "(vr_content v, vr_metadata v, vr_vector_score v) \<in>
      set (map (\<lambda>h. (vr_content h, vr_metadata h, vr_vector_score h)) hits)"
    by force
  then obtain p where p: "p \<in> set ?cands" "vr_vector_score v = 1 / (1 + snd (snd p))"
    unfolding m by auto
  obtain doc md d where pd: "p = (doc, md, d)" by (cases p)
  from p(1) pd have "d \<in> set (distances results)"
    by (metis set_zip_rightD)
  with p(2) pd q nz p(1) show ?thesis by fastforce
qed

lemma vector_search_store_error:
  "coll_query (collection e) query n = Inl err \<Longrightarrow> vector_search e query n = []"
  by (simp add: vector_search_def)

lemma bm25_search_positive:
  assumes "bm25_search BM25Okapi e0 query n = Inr (hits, e)" "h \<in> set hits"
  shows "0 < br_bm25_score h"
proof -
  from assms(2) have ne: "hits \<noteq> []" by auto
  from bm25_search_ranked[OF assms(1) ne] obtain scores where
    shape: "map (\<lambda>h. (br_content h, br_metadata h, br_bm25_score h)) hits =
       map (\<lambda>p. (py_join (documents_corpus e ! fst p), documents_metadata e ! fst p, snd p))
         (filter (\<lambda>p. 0 < snd p) (py_take n (sort_desc snd (enumerate 0 scores))))"
    by blast
  have "br_bm25_score h \<in> set (map br_bm25_score hits)" using assms(2) by simp
  then show ?thesis unfolding shape_scores(1)[OF shape] by auto
qed

lemma initialize_bm25_preserves:
  assumes "initialize_bm25 BM25Okapi e0 = Inr e"
  shows "vector_weight e = vector_weight e0 \<and> bm25_weight e = bm25_weight e0 \<and>
         collection e = collection e0"
proof (cases "bm25_initialized e0")
  case True
  with assms show ?thesis by (simp add: initialize_bm25_def)
next
  case False
  show ?thesis
  proof (cases "bm25_initialized e")
    case True
    with False assms have "built_from BM25Okapi e0 e" by (simp add: built_from_def)
    then show ?thesis by (rule built_from_fields) simp
  next
    case ni: False
    from assms False ni have "e = e0"
      unfolding initialize_bm25_def
      by (auto simp: Let_def split: sum.splits if_splits prod.splits)
    then show ?thesis by simp
  qed
qed

lemma bm25_search_preserves:
  assumes "bm25_search BM25Okapi e0 query n = Inr (hits, e)"
  shows "vector_weight e = vector_weight e0 \<and> bm25_weight e = bm25_weight e0 \<and>
         collection e = collection e0"
proof (cases "bm25_initialized e0")
  case True
  from bm25_search_built[OF True, of BM25Okapi query n] assms show ?thesis by auto
next
  case False
  with assms obtain e1 where i: "initialize_bm25 BM25Okapi e0 = Inr e1"
    unfolding bm25_search_def by (cases "initialize_bm25 BM25Okapi e0") auto
  with assms False have "e = e1"
    unfolding bm25_search_def by (auto simp: Let_def split: option.splits sum.splits)
  with initialize_bm25_preserves[OF i] show ?thesis by simp
qed

lemma bm25_search_returns:
  assumes "bm25_initialized e \<or> \<not> isl (initialize_bm25 BM25Okapi e)"
  shows "\<exists>hits e'. bm25_search BM25Okapi e query n = Inr (hits, e')"
proof (cases "bm25_initialized e")
  case True
  from bm25_search_built[OF True] show ?thesis by blast
next
  case False
  with assms obtain e1 where "initialize_bm25 BM25Okapi e = Inr e1"
    by (cases "initialize_bm25 BM25Okapi e") auto
  with False show ?thesis
    unfolding bm25_search_def by (auto simp: Let_def split: option.splits sum.splits)
qed

section \<open>Searching\<close>

lemma similarity_bounds: "(0::real) \<le> d \<Longrightarrow> 0 \<le> 1 / (1 + d) \<and> 1 / (1 + d) \<le> 1"
  by (simp add: field_simps)

lemma hybrid_search_Inr:
  assumes "hybrid_search BM25Okapi e query n = Inr (results, e')"
  obtains bm25_results where
    "bm25_search BM25Okapi e (enhance_query query) (n * 2) = Inr (bm25_results, e')"
    "results = fuse (vector_weight e) (bm25_weight e) n
                 (vector_search e (enhance_query query) (n * 2)) bm25_results"
proof -
  from assms obtain bs e1 where
    b: "bm25_search BM25Okapi e (enhance_query query) (n * 2) = Inr (bs, e1)"
    unfolding hybrid_search_def Let_def
    by (cases "bm25_search BM25Okapi e (enhance_query query) (n * 2)") auto
  with assms have e1: "e1 = e'"
    and r: "results = fuse (vector_weight e1) (bm25_weight e1) n
                 (vector_search e (enhance_query query) (n * 2)) bs"
    unfolding hybrid_search_def Let_def by auto
  from bm25_search_preserves[OF b] r e1 b show thesis
    by (intro that[of bs]) auto
qed

lemma search_built_returns:
  assumes "bm25_initialized e"
  shows "\<exists>results. search BM25Okapi e query n search_type = Inr (results, e)"
proof -
  obtain hits where "bm25_search BM25Okapi e query n = Inr (hits, e)"
    using bm25_search_built[OF assms] by blast
  moreover obtain hits' where
    "bm25_search BM25Okapi e (enhance_query query) (n * 2) = Inr (hits', e)"
    using bm25_search_built[OF assms] by blast
  ultimately show ?thesis
    by (simp add: search_def hybrid_search_def Let_def)
qed

lemma demo_nonneg:
  "\<forall>q k res. coll_query (collection demo_engine) q k = Inr res \<longrightarrow>
     (\<forall>d\<in>set (distances res). 0 \<le> d)"
  by (auto simp: demo_engine_eval demo_collection_def)

lemma demo_hybrid_scores:
  "map hybrid_score (fst (projr (search overlap_okapi demo_engine ''kiosk'' 5 ''hybrid''))) = [13/10, 3/10] \<and>
   map vector_score (fst (projr (search overlap_okapi demo_engine ''kiosk'' 5 ''hybrid''))) = [1, 0] \<and>
   map bm25_score (fst (projr (search overlap_okapi demo_engine ''kiosk'' 5 ''hybrid''))) = [2, 1]"
  by code_simp

lemma demo_vector_scores:
  "map hybrid_score (fst (projr (search overlap_okapi demo_engine ''kiosk'' 5 ''vector''))) = [1] \<and>
   map vector_score (fst (projr (search overlap_okapi demo_engine ''kiosk'' 5 ''vector''))) = [1] \<and>
   map bm25_score (fst (projr (search overlap_okapi demo_engine ''kiosk'' 5 ''vector''))) = [0]"
  by code_simp

section \<open>Claims about scores\<close>

text \<open>
  C3, as the code has it.  For every result of a hybrid search (which is also what any
  mode string other than \<^verbatim>\<open>vector\<close> and \<^verbatim>\<open>bm25\<close> runs), \<open>hybrid_score\<close> is exactly
  \<open>vector_weight * vector_score + bm25_weight * bm25_score\<close> for the engine's weights.
  In \<^verbatim>\<open>vector\<close> mode \<open>hybrid_score\<close> is the vector score itself and \<open>bm25_score\<close> is
  0; in \<^verbatim>\<open>bm25\<close> mode \<open>hybrid_score\<close> is the BM25 score itself and \<open>vector_score\<close>
  is 0.  In every mode, if all distances the store returns are nonnegative, then
  \<open>vector_score\<close> lies in [0, 1] and \<open>bm25_score\<close> is nonnegative.  The counterexample
  shows the weighted formula failing in \<^verbatim>\<open>vector\<close> mode: the score is 1, the formula
  gives 7/10.
\<close>

theorem search_scores_by_mode:
  assumes "search BM25Okapi e query n search_type = Inr (results, e')"
    and "r \<in> set results"
  shows "(search_type = ''vector'' \<longrightarrow> hybrid_score r = vector_score r \<and> bm25_score r = 0) \<and>
         (search_type = ''bm25'' \<longrightarrow> hybrid_score r = bm25_score r \<and> vector_score r = 0) \<and>
         (search_type \<noteq> ''vector'' \<and> search_type \<noteq> ''bm25'' \<longrightarrow>
            hybrid_score r = vector_weight e * vector_score r + bm25_weight e * bm25_score r) \<and>
         ((\<forall>q k res. coll_query (collection e) q k = Inr res \<longrightarrow>
                     (\<forall>d\<in>set (distances res). 0 \<le> d)) \<longrightarrow>
            0 \<le> vector_score r \<and> vector_score r \<le> 1 \<and> 0 \<le> bm25_score r)"
proof -
  let ?nonneg = "\<forall>q k res. coll_query (collection e) q k = Inr res \<longrightarrow>
                     (\<forall>d\<in>set (distances res). 0 \<le> d)"
  have vbound: "0 \<le> vr_vector_score v \<and> vr_vector_score v \<le> 1"
    if "?nonneg" "v \<in> set (vector_search e q k)" for v q k
  proof -
    from vector_search_member[OF that(2)] obtain res d where
      "coll_query (collection e) q k = Inr res" "d \<in> set (distances res)"
      "vr_vector_score v = 1 / (1 + d)"
      by blast
    with that(1) similarity_bounds[of d] show ?thesis by auto
  qed
  consider (vector) "search_type = ''vector''" | (bm25) "search_type = ''bm25''"
    | (hybrid) "search_type \<noteq> ''vector''" "search_type \<noteq> ''bm25''"
    by blast
  then show ?thesis
  proof cases
    case vector
    with assms obtain v where v: "v \<in> set (vector_search e query n)" "r = vector_only_result v"
      by (auto simp: search_def)
    have "hybrid_score r = vector_score r \<and> bm25_score r = 0 \<and> vector_score r = vr_vector_score v"
      by (simp add: v(2) vector_only_result_def)
    with vbound[OF _ v(1)] vector show ?thesis by auto
  next
    case bm25
    with assms obtain hits where
      s: "bm25_search BM25Okapi e query n = Inr (hits, e')" and rs: "results = map bm25_only_result hits"
      by (cases "bm25_search BM25Okapi e query n") (auto simp: search_def)
    with assms(2) obtain b where b: "b \<in> set hits" "r = bm25_only_result b" by auto
    have "hybrid_score r = bm25_score r \<and> vector_score r = 0 \<and> bm25_score r = br_bm25_score b"
      by (simp add: b(2) bm25_only_result_def)
    with bm25_search_positive[OF s b(1)] bm25 show ?thesis by auto
  next
    case hybrid
    with assms(1) have h: "hybrid_search BM25Okapi e query n = Inr (results, e')"
      by (simp add: search_def)
    from hybrid_search_Inr[OF h] obtain bs where
      s: "bm25_search BM25Okapi e (enhance_query query) (n * 2) = Inr (bs, e')"
      and rs: "results = fuse (vector_weight e) (bm25_weight e) n
                 (vector_search e (enhance_query query) (n * 2)) bs"
      by blast
    let ?vs = "vector_search e (enhance_query query) (n * 2)"
    from fuse_member[OF assms(2)[unfolded rs]] obtain k en where
      m: "map_of (process_bm25 bs (process_vector ?vs [])) k = Some en"
      and r: "r = make_result (vector_weight e) (bm25_weight e) (k, en)"
      by blast
    have f: "hybrid_score r = vector_weight e * vector_score r + bm25_weight e * bm25_score r"
      by (simp add: r make_result_simps)
    have bounds: "0 \<le> vector_score r \<and> vector_score r \<le> 1 \<and> 0 \<le> bm25_score r" if nn: "?nonneg"
    proof -
      from combined_entry_cases[OF m] consider
        (v) v where "v \<in> set ?vs" "cr_vector_score en = vr_vector_score v"
          "cr_bm25_score en = 0 \<or> (\<exists>b\<in>set bs. cr_bm25_score en = br_bm25_score b)"
        | (b) b where "b \<in> set bs" "cr_vector_score en = 0" "cr_bm25_score en = br_bm25_score b"
        by blast
      then show ?thesis
      proof cases
        case v
        from v(3) have "0 \<le> cr_bm25_score en"
          using bm25_search_positive[OF s] by (auto simp: less_imp_le)
        with vbound[OF nn v(1)] v(2) show ?thesis by (simp add: r make_result_simps)
      next
        case b
        with bm25_search_positive[OF s b(1)] show ?thesis by (simp add: r make_result_simps)
      qed
    qed
    from f bounds hybrid show ?thesis by blast
  qed
qed

theorem search_scores_by_mode_witness:
  "\<exists>results. search overlap_okapi demo_engine ''kiosk'' 5 ''hybrid'' = Inr (results, demo_engine) \<and>
     length results = 2 \<and>
     hybrid_score (results ! 0) = 13/10 \<and>
     hybrid_score (results ! 0) =
       vector_weight demo_engine * vector_score (results ! 0) +
       bm25_weight demo_engine * bm25_score (results ! 0) \<and>
     0 \<le> vector_score (results ! 0) \<and> vector_score (results ! 0) \<le> 1 \<and>
     0 \<le> bm25_score (results ! 0)"
proof -
  obtain results where
    s: "search overlap_okapi demo_engine ''kiosk'' 5 ''hybrid'' = Inr (results, demo_engine)"
    using search_built_returns[OF demo_initialized] by blast
  from demo_hybrid_scores s have sc: "map hybrid_score results = [13/10, 3/10]" by simp
  then obtain x y where xy: "results = [x, y]" by (auto simp: map_eq_Cons_conv)
  have mem: "results ! 0 \<in> set results" and len: "length results = 2"
    and h: "hybrid_score (results ! 0) = 13/10"
    using sc xy by simp_all
  from search_scores_by_mode[OF s mem] demo_nonneg
  have "hybrid_score (results ! 0) =
       vector_weight demo_engine * vector_score (results ! 0) +
       bm25_weight demo_engine * bm25_score (results ! 0) \<and>
     0 \<le> vector_score (results ! 0) \<and> vector_score (results ! 0) \<le> 1 \<and>
     0 \<le> bm25_score (results ! 0)"
    by simp
  with s len h show ?thesis by blast
qed

theorem search_vector_mode_counterexample:
  "map hybrid_score (fst (projr (search overlap_okapi demo_engine ''kiosk'' 5 ''vector''))) = [1] \<and>
   map vector_score (fst (projr (search overlap_okapi demo_engine ''kiosk'' 5 ''vector''))) = [1] \<and>
   map bm25_score (fst (projr (search overlap_okapi demo_engine ''kiosk'' 5 ''vector''))) = [0] \<and>
   vector_weight demo_engine = 7/10 \<and> bm25_weight demo_engine = 3/10 \<and>
   (1::real) \<noteq> 7/10 * 1 + 3/10 * 0"
  using demo_vector_scores by (simp add: demo_engine_eval)

lemma fuse_no_vector_results:
  assumes "r \<in> set (fuse vw bw n [] bm25_results)"
  shows "vector_score r = 0"
proof -
  from fuse_member[OF assms] obtain k en where
    m: "map_of (process_bm25 bm25_results (process_vector [] [])) k = Some en"
    and r: "r = make_result vw bw (k, en)"
    by blast
  from combined_entry_cases[OF m] have "cr_vector_score en = 0" by auto
  then show ?thesis by (simp add: r make_result_simps)
qed

lemma demo_down_initialized: "bm25_initialized demo_down"
  by (simp add: demo_down_def demo_initialized)

lemma demo_down_query:
  "coll_query (collection demo_down) (enhance_query ''kiosk'') (5 * 2) = Inl StoreError"
  by (simp add: demo_down_def down_collection_def)

lemma demo_down_scores:
  "map vector_score (fst (projr (search overlap_okapi demo_down ''kiosk'' 5 ''hybrid''))) = [0, 0] \<and>
   map bm25_score (fst (projr (search overlap_okapi demo_down ''kiosk'' 5 ''hybrid''))) = [2, 1]"
  by code_simp

section \<open>Claims about failures and misuse\<close>

text \<open>
  C7, as the code has it.  If the vector store raises on the query of a hybrid search,
  and the lexical branch itself does not raise (its index is already built, or its lazy
  build succeeds), then the search raises nothing: the vector branch counts as empty,
  the answer is the fusion of the lexical results alone, and every result has
  \<open>vector_score = 0\<close>.  The counterexample is a new engine whose store is unreachable:
  the lazy build of the lexical index reads the same store, its exception is raised
  again by \<^verbatim>\<open>_initialize_bm25\<close> outside the \<^verbatim>\<open>try\<close> of \<^verbatim>\<open>bm25_search\<close>, and the hybrid
  search propagates it.
\<close>

theorem hybrid_search_survives_vector_failure:
  assumes "coll_query (collection e) (enhance_query query) (n * 2) = Inl err"
    and "bm25_initialized e \<or> \<not> isl (initialize_bm25 BM25Okapi e)"
  shows "\<exists>bm25_results e'.
           bm25_search BM25Okapi e (enhance_query query) (n * 2) = Inr (bm25_results, e') \<and>
           search BM25Okapi e query n ''hybrid'' =
             Inr (fuse (vector_weight e) (bm25_weight e) n [] bm25_results, e') \<and>
           (\<forall>r\<in>set (fuse (vector_weight e) (bm25_weight e) n [] bm25_results).
              vector_score r = 0)"
proof -
  from bm25_search_returns[OF assms(2)] obtain bs e' where
    b: "bm25_search BM25Okapi e (enhance_query query) (n * 2) = Inr (bs, e')"
    by blast
  have v: "vector_search e (enhance_query query) (n * 2) = []"
    by (rule vector_search_store_error[OF assms(1)])
  have "search BM25Okapi e query n ''hybrid'' =
          Inr (fuse (vector_weight e) (bm25_weight e) n [] bs, e')"
    using b v bm25_search_preserves[OF b] by (simp add: search_def hybrid_search_def Let_def)
  with b fuse_no_vector_results show ?thesis by blast
qed

theorem hybrid_search_survives_vector_failure_witness:
  "coll_query (collection demo_down) (enhance_query ''kiosk'') (5 * 2) = Inl StoreError \<and>
   bm25_initialized demo_down \<and>
   (\<exists>bm25_results e'.
      bm25_search overlap_okapi demo_down (enhance_query ''kiosk'') (5 * 2) = Inr (bm25_results, e') \<and>
      search overlap_okapi demo_down ''kiosk'' 5 ''hybrid'' =
        Inr (fuse (vector_weight demo_down) (bm25_weight demo_down) 5 [] bm25_results, e') \<and>
      map vector_score (fuse (vector_weight demo_down) (bm25_weight demo_down) 5 [] bm25_results)
        = [0, 0])"
proof -
  from hybrid_search_survives_vector_failure[OF demo_down_query, of overlap_okapi]
    demo_down_initialized
  obtain bs e' where
    b: "bm25_search overlap_okapi demo_down (enhance_query ''kiosk'') (5 * 2) = Inr (bs, e')"
    and s: "search overlap_okapi demo_down ''kiosk'' 5 ''hybrid'' =
        Inr (fuse (vector_weight demo_down) (bm25_weight demo_down) 5 [] bs, e')"
    by blast
  from demo_down_scores s have
    "map vector_score (fuse (vector_weight demo_down) (bm25_weight demo_down) 5 [] bs) = [0, 0]"
    by simp
  with b s demo_down_query demo_down_initialized show ?thesis
    by (intro conjI exI[of _ bs] exI[of _ e'])
qed

theorem hybrid_search_store_down_counterexample:
  "coll_query (collection fresh_down) (enhance_query ''kiosk'') (5 * 2) = Inl StoreError \<and>
   search overlap_okapi fresh_down ''kiosk'' 5 ''hybrid'' = Inl StoreError"
  by (simp add: fresh_down_def new_engine_def down_collection_def search_def hybrid_search_def
      bm25_search_def initialize_bm25_def Let_def)

lemma search_other_mode:
  "search_type \<noteq> ''vector'' \<Longrightarrow> search_type \<noteq> ''bm25'' \<Longrightarrow>
   search BM25Okapi e query k search_type = hybrid_search BM25Okapi e query k"
  by (simp add: search_def)

lemma py_take_zero: "py_take 0 xs = []"
  by (simp add: py_take_def)

lemma bm25_search_zero:
  assumes "bm25_initialized e"
  shows "bm25_search BM25Okapi e query 0 = Inr ([], e)"
proof -
  obtain hits where h: "bm25_search BM25Okapi e query 0 = Inr (hits, e)"
    using bm25_search_built[OF assms] by blast
  have "hits = []"
  proof (rule ccontr)
    assume ne: "hits \<noteq> []"
    from bm25_search_ranked[OF h ne] obtain scores where
      "map (\<lambda>h. (br_content h, br_metadata h, br_bm25_score h)) hits =
       map (\<lambda>p. (py_join (documents_corpus e ! fst p), documents_metadata e ! fst p, snd p))
         (filter (\<lambda>p. 0 < snd p) (py_take 0 (sort_desc snd (enumerate 0 scores))))"
      by blast
    then have "hits = []" by (simp add: py_take_zero)
    with ne show False by simp
  qed
  with h show ?thesis by simp
qed

lemma search_zero:
  assumes "bm25_initialized e" "search_type \<noteq> ''vector''"
  shows "search BM25Okapi e query 0 search_type = Inr ([], e)"
proof (cases "search_type = ''bm25''")
  case True
  with bm25_search_zero[OF assms(1), of BM25Okapi query] show ?thesis by (simp add: search_def)
next
  case False
  obtain hits where "bm25_search BM25Okapi e (enhance_query query) (0 * 2) = Inr (hits, e)"
    using bm25_search_built[OF assms(1)] by blast
  then have "hybrid_search BM25Okapi e query 0 = Inr ([], e)"
    by (simp add: hybrid_search_def fuse_def Let_def py_take_zero)
  with False assms(2) show ?thesis by (simp add: search_def)
qed

lemma demo_fuzzy_scores:
  "map hybrid_score (fst (projr (search overlap_okapi demo_engine ''kiosk'' 5 ''fuzzy''))) = [13/10, 3/10]"
proof -
  have "search overlap_okapi demo_engine ''kiosk'' 5 ''fuzzy'' =
        search overlap_okapi demo_engine ''kiosk'' 5 ''hybrid''"
    by (simp add: search_def)
  then show ?thesis using demo_hybrid_scores by (simp only:)
qed

text \<open>
  C1, as the code has it.  \<open>search\<close> validates neither \<open>k\<close> nor the mode.  A mode string
  other than \<^verbatim>\<open>vector\<close> and \<^verbatim>\<open>bm25\<close> runs the hybrid search (the source's
  \<^verbatim>\<open>else:  # hybrid (default)\<close>); on an engine whose lexical index is built the call
  returns a list for every \<open>k\<close> and every mode string, never an error; and with
  \<open>k = 0\<close> the hybrid and the lexical mode return the empty list.  The counterexample
  evaluates \<open>k = 0\<close>, \<open>k = -1\<close> and the mode \<^verbatim>\<open>fuzzy\<close> on the example engine: each
  returns a list.
\<close>

theorem search_does_not_validate:
  "(search_type \<noteq> ''vector'' \<and> search_type \<noteq> ''bm25'' \<longrightarrow>
      search BM25Okapi e query k search_type = hybrid_search BM25Okapi e query k) \<and>
   (bm25_initialized e \<longrightarrow>
      (\<exists>results. search BM25Okapi e query k search_type = Inr (results, e))) \<and>
   (bm25_initialized e \<and> search_type \<noteq> ''vector'' \<longrightarrow>
      search BM25Okapi e query 0 search_type = Inr ([], e))"
proof (intro conjI impI)
  assume "search_type \<noteq> ''vector'' \<and> search_type \<noteq> ''bm25''"
  then show "search BM25Okapi e query k search_type = hybrid_search BM25Okapi e query k"
    using search_other_mode by blast
next
  assume "bm25_initialized e"
  then show "\<exists>results. search BM25Okapi e query k search_type = Inr (results, e)"
    by (rule search_built_returns)
next
  assume "bm25_initialized e \<and> search_type \<noteq> ''vector''"
  then show "search BM25Okapi e query 0 search_type = Inr ([], e)"
    using search_zero by blast
qed

theorem search_does_not_validate_witness:
  "''fuzzy'' \<noteq> ''vector'' \<and> ''fuzzy'' \<noteq> ''bm25'' \<and> bm25_initialized demo_engine \<and>
   search overlap_okapi demo_engine ''kiosk'' (-1) ''fuzzy'' =
     hybrid_search overlap_okapi demo_engine ''kiosk'' (-1) \<and>
   (\<exists>results. search overlap_okapi demo_engine ''kiosk'' (-1) ''fuzzy'' = Inr (results, demo_engine)) \<and>
   search overlap_okapi demo_engine ''kiosk'' 0 ''fuzzy'' = Inr ([], demo_engine)"
proof -
  note t = search_does_not_validate[of "''fuzzy''" overlap_okapi demo_engine "''kiosk''" "-1"]
  have n1: "''fuzzy'' \<noteq> ''vector''" and n2: "''fuzzy'' \<noteq> ''bm25''" by simp_all
  have a: "search overlap_okapi demo_engine ''kiosk'' (-1) ''fuzzy'' =
     hybrid_search overlap_okapi demo_engine ''kiosk'' (-1)"
    by (rule t[THEN conjunct1, THEN mp, OF conjI[OF n1 n2]])
  have b: "\<exists>results. search overlap_okapi demo_engine ''kiosk'' (-1) ''fuzzy'' = Inr (results, demo_engine)"
    by (rule t[THEN conjunct2, THEN conjunct1, THEN mp, OF demo_initialized])
  have c: "search overlap_okapi demo_engine ''kiosk'' 0 ''fuzzy'' = Inr ([], demo_engine)"
    by (rule t[THEN conjunct2, THEN conjunct2, THEN mp, OF conjI[OF demo_initialized n1]])
  from n1 n2 demo_initialized a b c show ?thesis by (intro conjI)
qed

theorem search_accepts_misuse_counterexample:
  "search overlap_okapi demo_engine ''kiosk'' 0 ''hybrid'' = Inr ([], demo_engine) \<and>
   \<not> isl (search overlap_okapi demo_engine ''kiosk'' (-1) ''hybrid'') \<and>
   \<not> isl (search overlap_okapi demo_engine ''kiosk'' 5 ''fuzzy'') \<and>
   map hybrid_score (fst (projr (search overlap_okapi demo_engine ''kiosk'' 5 ''fuzzy''))) =
     [13/10, 3/10]"
proof -
  have a: "search overlap_okapi demo_engine ''kiosk'' 0 ''hybrid'' = Inr ([], demo_engine)"
    by (rule search_zero[OF demo_initialized]) simp
  obtain r1 where "search overlap_okapi demo_engine ''kiosk'' (-1) ''hybrid'' = Inr (r1, demo_engine)"
    using search_built_returns[OF demo_initialized] by blast
  then have b: "\<not> isl (search overlap_okapi demo_engine ''kiosk'' (-1) ''hybrid'')"
    by (simp only: sum.disc not_False_eq_True)
  obtain r2 where "search overlap_okapi demo_engine ''kiosk'' 5 ''fuzzy'' = Inr (r2, demo_engine)"
    using search_built_returns[OF demo_initialized] by blast
  then have c: "\<not> isl (search overlap_okapi demo_engine ''kiosk'' 5 ''fuzzy'')"
    by (simp only: sum.disc not_False_eq_True)
  from a b c demo_fuzzy_scores show ?thesis by (intro conjI)
qed

section \<open>Claims about the merge key\<close>

lemma doc_key_empty_url: "md ''url'' = Some (MStr []) \<Longrightarrow> doc_key md = MStr []"
  by (simp add: doc_key_def dict_get_def)

lemma doc_key_no_url: "md ''url'' = None \<Longrightarrow> doc_key md = dict_get md ''id'' (MStr [])"
  by (simp add: doc_key_def dict_get_def)

lemma add_vector_result_empty_url:
  "vr_metadata r ''url'' = Some (MStr []) \<Longrightarrow> add_vector_result r c = c"
  by (simp add: add_vector_result_def doc_key_empty_url)

lemma add_bm25_result_empty_url:
  "br_metadata r ''url'' = Some (MStr []) \<Longrightarrow> add_bm25_result r c = c"
  by (simp add: add_bm25_result_def doc_key_empty_url)

lemma process_vector_filter_url:
  "process_vector (filter (\<lambda>r. vr_metadata r ''url'' \<noteq> Some (MStr [])) vs) c = process_vector vs c"
  by (induction vs arbitrary: c) (simp_all add: add_vector_result_empty_url)

lemma process_bm25_filter_url:
  "process_bm25 (filter (\<lambda>r. br_metadata r ''url'' \<noteq> Some (MStr [])) bs) c = process_bm25 bs c"
  by (induction bs arbitrary: c) (simp_all add: add_bm25_result_empty_url)

lemma fuse_result_url:
  assumes "r \<in> set (fuse vw bw n vs bs)"
  shows "metadata r ''url'' \<noteq> Some (MStr [])"
proof
  assume u: "metadata r ''url'' = Some (MStr [])"
  from fuse_member[OF assms] obtain k en where
    m: "map_of (process_bm25 bs (process_vector vs [])) k = Some en"
    and r: "r = make_result vw bw (k, en)"
    by blast
  from combined_entry_cases[OF m] have t: "truthy k" and "doc_key (cr_metadata en) = k"
    by auto
  moreover from u r have "doc_key (cr_metadata en) = MStr []"
    by (simp add: make_result_simps doc_key_empty_url)
  ultimately show False by auto
qed

lemma url_hits_fused:
  "map id_field (fuse (7/10) (3/10) 5 [url_empty_hit, id_only_hit] []) = [MStr ''y'']"
  by code_simp

text \<open>
  C9.  In a hybrid search a branch result whose metadata maps \<^verbatim>\<open>url\<close> to the empty
  string is dropped, whatever its \<^verbatim>\<open>id\<close>: the fused answer is the same as without
  all such results, no returned result has an empty \<^verbatim>\<open>url\<close> entry, and the key of
  such metadata is the empty string (so it is falsy).  The \<^verbatim>\<open>id\<close> is consulted only
  when the \<^verbatim>\<open>url\<close> key is absent.
\<close>

theorem empty_url_drops_result:
  "fuse vw bw n vector_results bm25_results =
     fuse vw bw n (filter (\<lambda>r. vr_metadata r ''url'' \<noteq> Some (MStr [])) vector_results)
                  (filter (\<lambda>r. br_metadata r ''url'' \<noteq> Some (MStr [])) bm25_results) \<and>
   (\<forall>r\<in>set (fuse vw bw n vector_results bm25_results). metadata r ''url'' \<noteq> Some (MStr [])) \<and>
   (md ''url'' = Some (MStr []) \<longrightarrow> doc_key md = MStr [] \<and> \<not> truthy (doc_key md)) \<and>
   (md ''url'' = None \<longrightarrow> doc_key md = dict_get md ''id'' (MStr []))"
proof (intro conjI ballI impI)
  show "fuse vw bw n vector_results bm25_results =
     fuse vw bw n (filter (\<lambda>r. vr_metadata r ''url'' \<noteq> Some (MStr [])) vector_results)
                  (filter (\<lambda>r. br_metadata r ''url'' \<noteq> Some (MStr [])) bm25_results)"
    by (simp add: fuse_def process_vector_filter_url process_bm25_filter_url)
next
  fix r assume "r \<in> set (fuse vw bw n vector_results bm25_results)"
  then show "metadata r ''url'' \<noteq> Some (MStr [])" by (rule fuse_result_url)
next
  assume "md ''url'' = Some (MStr [])"
  then show "doc_key md = MStr []" by (rule doc_key_empty_url)
next
  assume "md ''url'' = Some (MStr [])"
  then show "\<not> truthy (doc_key md)" by (simp add: doc_key_empty_url)
next
  assume "md ''url'' = None"
  then show "doc_key md = dict_get md ''id'' (MStr [])" by (rule doc_key_no_url)
qed

theorem empty_url_drops_result_witness:
  "vr_metadata url_empty_hit ''url'' = Some (MStr []) \<and>
   vr_metadata url_empty_hit ''id'' = Some (MStr ''x'') \<and>
   doc_key (vr_metadata url_empty_hit) = MStr [] \<and>
   vr_metadata id_only_hit ''url'' = None \<and>
   doc_key (vr_metadata id_only_hit) = dict_get (vr_metadata id_only_hit) ''id'' (MStr []) \<and>
   fuse (7/10) (3/10) 5 [url_empty_hit, id_only_hit] [] = fuse (7/10) (3/10) 5 [id_only_hit] [] \<and>
   map id_field (fuse (7/10) (3/10) 5 [url_empty_hit, id_only_hit] []) = [MStr ''y''] \<and>
   metadata (hd (fuse (7/10) (3/10) 5 [url_empty_hit, id_only_hit] [])) ''url'' \<noteq> Some (MStr [])"
proof -
  let ?res = "fuse (7/10) (3/10) 5 [url_empty_hit, id_only_hit] []"
  note t1 = empty_url_drops_result[of "7/10" "3/10" 5 "[url_empty_hit, id_only_hit]" "[]"
      "vr_metadata url_empty_hit"]
  note t2 = empty_url_drops_result[of "7/10" "3/10" 5 "[url_empty_hit, id_only_hit]" "[]"
      "vr_metadata id_only_hit"]
  have u: "vr_metadata url_empty_hit ''url'' = Some (MStr [])"
    and i: "vr_metadata url_empty_hit ''id'' = Some (MStr ''x'')"
    by (simp_all add: url_empty_hit_def)
  have n: "vr_metadata id_only_hit ''url'' = None"
    by (simp add: id_only_hit_def)
  have k1: "doc_key (vr_metadata url_empty_hit) = MStr []"
    using t1[THEN conjunct2, THEN conjunct2, THEN conjunct1, THEN mp, OF u] by (rule conjunct1)
  have k2: "doc_key (vr_metadata id_only_hit) = dict_get (vr_metadata id_only_hit) ''id'' (MStr [])"
    by (rule t2[THEN conjunct2, THEN conjunct2, THEN conjunct2, THEN mp, OF n])
  have f: "?res = fuse (7/10) (3/10) 5 [id_only_hit] []"
    using t1[THEN conjunct1] by (simp add: url_empty_hit_def id_only_hit_def)
  from url_hits_fused have "?res \<noteq> []" by auto
  then have "hd ?res \<in> set ?res" by simp
  then have h: "metadata (hd ?res) ''url'' \<noteq> Some (MStr [])"
    by (rule t1[THEN conjunct2, THEN conjunct1, THEN bspec])
  from u i k1 n k2 f url_hits_fused h show ?thesis by (intro conjI)
qed

section \<open>The vector score\<close>

lemma vector_search_scores:
  assumes "coll_query (collection e) query n = Inr results"
    and "\<forall>p\<in>set (zip (documents results) (zip (metadatas results) (distances results))).
           1 + snd (snd p) \<noteq> 0"
  shows "map (\<lambda>h. (vr_content h, vr_metadata h, vr_vector_score h)) (vector_search e query n) =
         map (\<lambda>p. (fst p, fst (snd p), 1 / (1 + snd (snd p))))
             (zip (documents results) (zip (metadatas results) (distances results)))"
proof -
  let ?cands = "zip (documents results) (zip (metadatas results) (distances results))"
  from vector_hits_total[OF assms(2), of 0] obtain hits where h: "vector_hits 0 ?cands = Inr hits"
    by blast
  then have "vector_search e query n = hits"
    using assms(1) by (simp add: vector_search_def)
  with vector_hits_shape[OF h] show ?thesis by simp
qed

lemma vector_search_zero_division:
  assumes "coll_query (collection e) query n = Inr results"
    and "\<exists>p\<in>set (zip (documents results) (zip (metadatas results) (distances results))).
           1 + snd (snd p) = 0"
  shows "vector_search e query n = []"
proof -
  from assms(2) obtain p where
    "p \<in> set (zip (documents results) (zip (metadatas results) (distances results)))"
    "1 + snd (snd p) = 0"
    by blast
  from vector_hits_raises[OF this, of 0] assms(1) show ?thesis
    by (simp add: vector_search_def)
qed

lemma py_take_singleton: "0 < n \<Longrightarrow> py_take n [x] = [x]"
  by (simp add: py_take_def)

lemma fuse_single_vector:
  assumes "truthy (doc_key (vr_metadata v))" "0 < n"
  shows "fuse vw bw n [v] [] = [make_result vw bw (doc_key (vr_metadata v), vector_entry v)]"
  using assms by (simp add: fuse_def add_vector_result_def sort_desc_def py_take_singleton)

lemma perfect_match_alone:
  assumes q: "coll_query (collection e) (enhance_query query) (k * 2) =
                Inr \<lparr>documents = [doc], metadatas = [md], distances = [0]\<rparr>"
    and t: "truthy (doc_key md)"
    and b: "bm25_search BM25Okapi e (enhance_query query) (k * 2) = Inr ([], e')"
    and k: "0 < k"
  shows "\<exists>r. search BM25Okapi e query k ''hybrid'' = Inr ([r], e') \<and>
           vector_score r = 1 \<and> bm25_score r = 0 \<and>
           hybrid_score r = vector_weight e * 1 \<and>
           metadata r = md \<and> content r = display_content doc"
proof -
  let ?v = "\<lparr>vr_content = doc, vr_metadata = md, vr_vector_score = 1, vr_rank = 1\<rparr>"
  have vs: "vector_search e (enhance_query query) (k * 2) = [?v]"
    using q by (simp add: vector_search_def)
  let ?r = "make_result (vector_weight e) (bm25_weight e) (doc_key md, vector_entry ?v)"
  have f: "fuse (vector_weight e) (bm25_weight e) k [?v] [] = [?r]"
    using fuse_single_vector[of ?v k] t k by simp
  have s: "search BM25Okapi e query k ''hybrid'' = Inr ([?r], e')"
    using vs b f bm25_search_preserves[OF b]
    by (simp add: search_def hybrid_search_def Let_def)
  have "vector_score ?r = 1 \<and> bm25_score ?r = 0 \<and> hybrid_score ?r = vector_weight e * 1 \<and>
        metadata ?r = md \<and> content ?r = display_content doc"
    by (simp add: make_result_simps vector_entry_def)
  with s show ?thesis by (intro exI[of _ ?r]) simp
qed

lemma demo_query:
  "coll_query (collection demo_engine) q n =
     Inr \<lparr>documents = [''Kiosk  mode''],
          metadatas = [[''url'' \<mapsto> MStr ''u1'', ''title'' \<mapsto> MStr ''K'']],
          distances = [0]\<rparr>"
  by (simp add: demo_engine_eval demo_collection_def)

lemma demo_no_match:
  "length (fst (projr (bm25_search overlap_okapi demo_engine (enhance_query ''zzz'') (5 * 2)))) = 0"
  by code_simp

lemma minus_one_query:
  "coll_query (collection minus_one_engine) q n =
     Inr \<lparr>documents = [''a''], metadatas = [Map.empty], distances = [- 1]\<rparr>"
  by (simp add: minus_one_engine_def new_engine_def)

section \<open>Fusion\<close>

lemma process_bm25_existing_updated:
  "map_of c k = Some en \<Longrightarrow> b \<in> set bs \<Longrightarrow> doc_key (br_metadata b) = k \<Longrightarrow> truthy k \<Longrightarrow>
   \<exists>en'. map_of (process_bm25 bs c) k = Some en' \<and>
     cr_content en' = cr_content en \<and> cr_metadata en' = cr_metadata en \<and>
     cr_vector_score en' = cr_vector_score en \<and>
     (\<exists>r\<in>set bs. doc_key (br_metadata r) = k \<and> cr_bm25_score en' = br_bm25_score r)"
proof (induction bs arbitrary: c en)
  case Nil
  then show ?case by simp
next
  case (Cons a bs)
  let ?c1 = "add_bm25_result a c"
  show ?case
  proof (cases "doc_key (br_metadata a) = k")
    case True
    let ?en1 = "en\<lparr>cr_bm25_score := br_bm25_score a, cr_bm25_rank := Some (br_rank a)\<rparr>"
    have "map_of ?c1 k = Some ?en1"
      using True Cons.prems(1,4) by (simp add: map_of_add_bm25_result)
    from process_bm25_existing[OF this, of bs] obtain en' where en':
      "map_of (process_bm25 bs ?c1) k = Some en'"
      "cr_content en' = cr_content en" "cr_metadata en' = cr_metadata en"
      "cr_vector_score en' = cr_vector_score en"
      "cr_bm25_score en' = br_bm25_score a \<or>
        (\<exists>r\<in>set bs. doc_key (br_metadata r) = k \<and> cr_bm25_score en' = br_bm25_score r)"
      by auto
    from en'(5) True have "\<exists>r\<in>set (a # bs). doc_key (br_metadata r) = k \<and>
        cr_bm25_score en' = br_bm25_score r"
      by auto
    with en'(1-4) show ?thesis by simp
  next
    case False
    then have keep: "map_of ?c1 k = Some en"
      using Cons.prems(1) by (simp add: map_of_add_bm25_result)
    from False Cons.prems(2,3) have "b \<in> set bs" by auto
    from Cons.IH[OF keep this Cons.prems(3,4)] show ?thesis by auto
  qed
qed

lemma merged_member:
  "map_of c k = Some en \<Longrightarrow> make_result vw bw (k, en) \<in> set (map (make_result vw bw) c)"
  by (auto dest: map_of_SomeD)

text \<open>A key that only the vector branch returned.\<close>

lemma vector_only_result_merged:
  assumes "v \<in> set vs" "truthy (doc_key (vr_metadata v))"
    and "\<forall>b\<in>set bs. doc_key (br_metadata b) \<noteq> doc_key (vr_metadata v)"
  shows "\<exists>r\<in>set (map (make_result vw bw) (process_bm25 bs (process_vector vs []))).
           \<exists>v'\<in>set vs. doc_key (vr_metadata v') = doc_key (vr_metadata v) \<and>
             metadata r = vr_metadata v' \<and> content r = display_content (vr_content v') \<and>
             vector_score r = vr_vector_score v' \<and> bm25_score r = 0"
proof -
  let ?k = "doc_key (vr_metadata v)"
  from process_vector_present[OF assms(1,2), of "[]"] obtain v' where
    v': "v' \<in> set vs" "doc_key (vr_metadata v') = ?k"
    "map_of (process_vector vs []) ?k = Some (vector_entry v')"
    by blast
  from process_bm25_other[OF assms(3)] v'(3) have
    "map_of (process_bm25 bs (process_vector vs [])) ?k = Some (vector_entry v')"
    by simp
  from merged_member[OF this, of vw bw] v'(1,2) show ?thesis
    by (intro bexI[of _ "make_result vw bw (?k, vector_entry v')"] bexI[of _ v'])
       (simp_all add: make_result_simps vector_entry_def)
qed

text \<open>A key that only the lexical branch returned.\<close>

lemma bm25_only_result_merged:
  assumes "b \<in> set bs" "truthy (doc_key (br_metadata b))"
    and "\<forall>v\<in>set vs. doc_key (vr_metadata v) \<noteq> doc_key (br_metadata b)"
  shows "\<exists>r\<in>set (map (make_result vw bw) (process_bm25 bs (process_vector vs []))).
           \<exists>b1\<in>set bs. \<exists>b2\<in>set bs.
             doc_key (br_metadata b1) = doc_key (br_metadata b) \<and>
             doc_key (br_metadata b2) = doc_key (br_metadata b) \<and>
             metadata r = br_metadata b1 \<and> content r = display_content (br_content b1) \<and>
             bm25_score r = br_bm25_score b2 \<and> vector_score r = 0"
proof -
  let ?k = "doc_key (br_metadata b)"
  have "map_of (process_vector vs []) ?k = None"
    using process_vector_other[OF assms(3), of "[]"] by simp
  from process_bm25_new[OF this assms(1) refl assms(2)] obtain en' b1 b2 where
    e: "map_of (process_bm25 bs (process_vector vs [])) ?k = Some en'"
    "b1 \<in> set bs" "doc_key (br_metadata b1) = ?k" "b2 \<in> set bs" "doc_key (br_metadata b2) = ?k"
    "cr_content en' = br_content b1" "cr_metadata en' = br_metadata b1"
    "cr_vector_score en' = 0" "cr_bm25_score en' = br_bm25_score b2"
    by blast
  from merged_member[OF e(1), of vw bw] e(2-9) show ?thesis
    by (intro bexI[of _ "make_result vw bw (?k, en')"] bexI[of _ b1] bexI[of _ b2])
       (simp_all add: make_result_simps)
qed

text \<open>A key that both branches returned: the vector branch's copy is kept.\<close>

lemma shared_result_merged:
  assumes "v \<in> set vs" "truthy (doc_key (vr_metadata v))"
    and "b \<in> set bs" "doc_key (br_metadata b) = doc_key (vr_metadata v)"
  shows "\<exists>r\<in>set (map (make_result vw bw) (process_bm25 bs (process_vector vs []))).
           \<exists>v'\<in>set vs. \<exists>b'\<in>set bs.
             doc_key (vr_metadata v') = doc_key (vr_metadata v) \<and>
             doc_key (br_metadata b') = doc_key (vr_metadata v) \<and>
             metadata r = vr_metadata v' \<and> content r = display_content (vr_content v') \<and>
             vector_score r = vr_vector_score v' \<and> bm25_score r = br_bm25_score b'"
proof -
  let ?k = "doc_key (vr_metadata v)"
  from process_vector_present[OF assms(1,2), of "[]"] obtain v' where
    v': "v' \<in> set vs" "doc_key (vr_metadata v') = ?k"
    "map_of (process_vector vs []) ?k = Some (vector_entry v')"
    by blast
  from process_bm25_existing_updated[OF v'(3) assms(3,4,2)] obtain en' b' where
    e: "map_of (process_bm25 bs (process_vector vs [])) ?k = Some en'"
    "cr_content en' = cr_content (vector_entry v')"
    "cr_metadata en' = cr_metadata (vector_entry v')"
    "cr_vector_score en' = cr_vector_score (vector_entry v')"
    "b' \<in> set bs" "doc_key (br_metadata b') = ?k" "cr_bm25_score en' = br_bm25_score b'"
    by blast
  from merged_member[OF e(1), of vw bw] v'(1,2) e(2-7) show ?thesis
    by (intro bexI[of _ "make_result vw bw (?k, en')"] bexI[of _ v'] bexI[of _ b'])
       (simp_all add: make_result_simps vector_entry_def)
qed

lemma sort_desc_sorted: "sorted_wrt (\<lambda>x y. f y \<le> f x) (sort_desc f xs)"
proof -
  have "sorted (map (\<lambda>x. - f x) (sort_key (\<lambda>x. - f x) xs))" by (rule sorted_sort_key)
  then show ?thesis by (simp add: sort_desc_def sorted_wrt_map)
qed

lemma take_top:
  fixes f :: "'a \<Rightarrow> real"
  assumes "sorted_wrt (\<lambda>x y. f y \<le> f x) xs" "r \<in> set xs"
  shows "r \<in> set (take m xs) \<or> (length (take m xs) = m \<and> (\<forall>r'\<in>set (take m xs). f r \<le> f r'))"
proof -
  from assms(2) obtain i where i: "i < length xs" "xs ! i = r" by (auto simp: in_set_conv_nth)
  show ?thesis
  proof (cases "i < m")
    case True
    with i have "r \<in> set (take m xs)" by (auto simp: in_set_conv_nth)
    then show ?thesis ..
  next
    case False
    with i(1) have len: "length (take m xs) = m" by simp
    have "f r \<le> f r'" if "r' \<in> set (take m xs)" for r'
    proof -
      from that obtain j where j: "j < m" "j < length xs" "xs ! j = r'"
        by (auto simp: in_set_conv_nth)
      with False have "j < i" by simp
      from sorted_wrt_nth_less[OF assms(1) this i(1)] i(2) j(3) show ?thesis by simp
    qed
    with len show ?thesis by blast
  qed
qed

lemma fuse_keeps_top:
  assumes "0 \<le> n" "r \<in> set (map (make_result vw bw) (process_bm25 bs (process_vector vs [])))"
  shows "r \<in> set (fuse vw bw n vs bs) \<or>
         (length (fuse vw bw n vs bs) = nat n \<and>
          (\<forall>r'\<in>set (fuse vw bw n vs bs). hybrid_score r \<le> hybrid_score r'))"
proof -
  let ?merged = "map (make_result vw bw) (process_bm25 bs (process_vector vs []))"
  have f: "fuse vw bw n vs bs = take (nat n) (sort_desc hybrid_score ?merged)"
    using assms(1) by (simp add: fuse_def py_take_def)
  from assms(2) have "r \<in> set (sort_desc hybrid_score ?merged)" by (simp only: set_sort_desc)
  from take_top[OF sort_desc_sorted this, of "nat n"] show ?thesis unfolding f .
qed

section \<open>Claims about fusion\<close>

lemma fuse_subset:
  "set (fuse vw bw n vs bs) \<subseteq> set (map (make_result vw bw) (process_bm25 bs (process_vector vs [])))"
  using set_py_take by (fastforce simp: fuse_def Let_def set_sort_desc)

lemma demo_kiosk_bm25_keys:
  "map (\<lambda>h. doc_key (br_metadata h))
     (fst (projr (bm25_search overlap_okapi demo_engine (enhance_query ''kiosk'') (5 * 2)))) =
   [MStr ''u1'', MStr ''c'']"
  by code_simp

lemma demo_kiosk_vector_keys:
  "map (\<lambda>v. (doc_key (vr_metadata v), vr_content v))
     (vector_search demo_engine (enhance_query ''kiosk'') (5 * 2)) =
   [(MStr ''u1'', ''Kiosk  mode'')]"
  by code_simp

lemma demo_zzz_vector_keys:
  "map (\<lambda>v. doc_key (vr_metadata v))
     (vector_search demo_engine (enhance_query ''zzz'') (5 * 2)) = [MStr ''u1'']"
  by code_simp

lemma demo_zzz_length:
  "length (fst (projr (search overlap_okapi demo_engine ''zzz'' 5 ''hybrid''))) = 1"
  by code_simp

lemma empty_url_engine_initialized: "bm25_initialized empty_url_engine"
  by (simp add: empty_url_engine_def demo_initialized)

lemma empty_url_engine_no_match:
  "length (fst (projr (bm25_search overlap_okapi empty_url_engine (enhance_query ''zzz'') (5 * 2)))) = 0"
  by code_simp

lemma fuse_single_falsy:
  "\<not> truthy (doc_key (vr_metadata v)) \<Longrightarrow> fuse vw bw n [v] [] = []"
  by (simp add: fuse_def add_vector_result_def sort_desc_def py_take_def)

text \<open>
  C2, as the code has it.  The stable identifier of a result is the key the code
  computes: the \<^verbatim>\<open>url\<close> entry when it is present, the \<^verbatim>\<open>id\<close> entry when there is
  no \<^verbatim>\<open>url\<close> key; a result has one when that key is truthy (non-empty).  Let \<open>vs\<close>
  and \<open>bs\<close> be what the two branches return for the enhanced query, and \<open>merged\<close> the
  results built from the merged dictionary before sorting and truncation.  The hybrid
  search returns results of \<open>merged\<close>, and a result of \<open>merged\<close> is left out only when
  \<open>k\<close> results with a hybrid score at least as high are returned.  For every key that
  only the vector branch returned, \<open>merged\<close> holds a result with that key's vector
  content, metadata and score and \<open>bm25_score = 0\<close>; for every key that only the
  lexical branch returned, one with lexical content, metadata and score and
  \<open>vector_score = 0\<close>; for a key both returned, one whose content and metadata are the
  vector branch's copy, with the scores of both.  The counterexample is a candidate
  whose metadata has an empty \<^verbatim>\<open>url\<close> and the non-empty \<^verbatim>\<open>id\<close> \<^verbatim>\<open>x\<close>, returned by
  the vector branch alone: the hybrid search returns nothing.
\<close>

theorem hybrid_fusion_complete:
  assumes "bm25_search BM25Okapi e (enhance_query query) (n * 2) = Inr (bs, e')"
    and "vs = vector_search e (enhance_query query) (n * 2)"
    and "merged = map (make_result (vector_weight e) (bm25_weight e))
                      (process_bm25 bs (process_vector vs []))"
  shows "\<exists>results. search BM25Okapi e query n ''hybrid'' = Inr (results, e') \<and>
     set results \<subseteq> set merged \<and>
     (0 \<le> n \<longrightarrow>
        (\<forall>r\<in>set merged. r \<in> set results \<or>
           (length results = nat n \<and> (\<forall>r'\<in>set results. hybrid_score r \<le> hybrid_score r')))) \<and>
     (\<forall>v\<in>set vs. truthy (doc_key (vr_metadata v)) \<and>
          (\<forall>b\<in>set bs. doc_key (br_metadata b) \<noteq> doc_key (vr_metadata v)) \<longrightarrow>
        (\<exists>r\<in>set merged. \<exists>v'\<in>set vs. doc_key (vr_metadata v') = doc_key (vr_metadata v) \<and>
             metadata r = vr_metadata v' \<and> content r = display_content (vr_content v') \<and>
             vector_score r = vr_vector_score v' \<and> bm25_score r = 0)) \<and>
     (\<forall>b\<in>set bs. truthy (doc_key (br_metadata b)) \<and>
          (\<forall>v\<in>set vs. doc_key (vr_metadata v) \<noteq> doc_key (br_metadata b)) \<longrightarrow>
        (\<exists>r\<in>set merged. \<exists>b1\<in>set bs. \<exists>b2\<in>set bs.
             doc_key (br_metadata b1) = doc_key (br_metadata b) \<and>
             doc_key (br_metadata b2) = doc_key (br_metadata b) \<and>
             metadata r = br_metadata b1 \<and> content r = display_content (br_content b1) \<and>
             bm25_score r = br_bm25_score b2 \<and> vector_score r = 0)) \<and>
     (\<forall>v\<in>set vs. \<forall>b\<in>set bs. truthy (doc_key (vr_metadata v)) \<and>
          doc_key (br_metadata b) = doc_key (vr_metadata v) \<longrightarrow>
        (\<exists>r\<in>set merged. \<exists>v'\<in>set vs. \<exists>b'\<in>set bs.
             doc_key (vr_metadata v') = doc_key (vr_metadata v) \<and>
             doc_key (br_metadata b') = doc_key (vr_metadata v) \<and>
             metadata r = vr_metadata v' \<and> content r = display_content (vr_content v') \<and>
             vector_score r = vr_vector_score v' \<and> bm25_score r = br_bm25_score b'))"
proof -
  let ?vw = "vector_weight e" and ?bw = "bm25_weight e"
  let ?results = "fuse ?vw ?bw n vs bs"
  have s: "search BM25Okapi e query n ''hybrid'' = Inr (?results, e')"
    using assms(1,2) bm25_search_preserves[OF assms(1)]
    by (simp add: search_def hybrid_search_def Let_def)
  have sub: "set ?results \<subseteq> set merged"
    unfolding assms(3) by (rule fuse_subset)
  have top: "0 \<le> n \<longrightarrow>
        (\<forall>r\<in>set merged. r \<in> set ?results \<or>
           (length ?results = nat n \<and> (\<forall>r'\<in>set ?results. hybrid_score r \<le> hybrid_score r')))"
    unfolding assms(3) using fuse_keeps_top by blast
  have v: "\<forall>v\<in>set vs. truthy (doc_key (vr_metadata v)) \<and>
          (\<forall>b\<in>set bs. doc_key (br_metadata b) \<noteq> doc_key (vr_metadata v)) \<longrightarrow>
        (\<exists>r\<in>set merged. \<exists>v'\<in>set vs. doc_key (vr_metadata v') = doc_key (vr_metadata v) \<and>
             metadata r = vr_metadata v' \<and> content r = display_content (vr_content v') \<and>
             vector_score r = vr_vector_score v' \<and> bm25_score r = 0)"
    unfolding assms(3) using vector_only_result_merged by blast
  have b: "\<forall>b\<in>set bs. truthy (doc_key (br_metadata b)) \<and>
          (\<forall>v\<in>set vs. doc_key (vr_metadata v) \<noteq> doc_key (br_metadata b)) \<longrightarrow>
        (\<exists>r\<in>set merged. \<exists>b1\<in>set bs. \<exists>b2\<in>set bs.
             doc_key (br_metadata b1) = doc_key (br_metadata b) \<and>
             doc_key (br_metadata b2) = doc_key (br_metadata b) \<and>
             metadata r = br_metadata b1 \<and> content r = display_content (br_content b1) \<and>
             bm25_score r = br_bm25_score b2 \<and> vector_score r = 0)"
    unfolding assms(3) using bm25_only_result_merged by blast
  have vb: "\<forall>v\<in>set vs. \<forall>b\<in>set bs. truthy (doc_key (vr_metadata v)) \<and>
          doc_key (br_metadata b) = doc_key (vr_metadata v) \<longrightarrow>
        (\<exists>r\<in>set merged. \<exists>v'\<in>set vs. \<exists>b'\<in>set bs.
             doc_key (vr_metadata v') = doc_key (vr_metadata v) \<and>
             doc_key (br_metadata b') = doc_key (vr_metadata v) \<and>
             metadata r = vr_metadata v' \<and> content r = display_content (vr_content v') \<and>
             vector_score r = vr_vector_score v' \<and> bm25_score r = br_bm25_score b')"
    unfolding assms(3) using shared_result_merged by blast
  from s sub top v b vb show ?thesis by (intro exI[of _ ?results] conjI)
qed

theorem hybrid_fusion_complete_witness:
  "(\<exists>results. search overlap_okapi demo_engine ''kiosk'' 5 ''hybrid'' = Inr (results, demo_engine) \<and>
      (\<exists>r\<in>set results. doc_key (metadata r) = MStr ''c'' \<and> vector_score r = 0) \<and>
      (\<exists>r\<in>set results. doc_key (metadata r) = MStr ''u1'' \<and>
           content r = display_content ''Kiosk  mode'')) \<and>
   (\<exists>results. search overlap_okapi demo_engine ''zzz'' 5 ''hybrid'' = Inr (results, demo_engine) \<and>
      (\<exists>r\<in>set results. doc_key (metadata r) = MStr ''u1'' \<and> bm25_score r = 0))"
proof (intro conjI)
  define vs where "vs = vector_search demo_engine (enhance_query ''kiosk'') (5 * 2)"
  obtain bs where b:
    "bm25_search overlap_okapi demo_engine (enhance_query ''kiosk'') (5 * 2) = Inr (bs, demo_engine)"
    using bm25_search_built[OF demo_initialized] by blast
  define merged where "merged = map (make_result (vector_weight demo_engine) (bm25_weight demo_engine))
                      (process_bm25 bs (process_vector vs []))"
  from hybrid_fusion_complete[OF b vs_def merged_def] obtain results where
    s: "search overlap_okapi demo_engine ''kiosk'' 5 ''hybrid'' = Inr (results, demo_engine)"
    and top: "(0::int) \<le> 5 \<longrightarrow> (\<forall>r\<in>set merged. r \<in> set results \<or>
           (length results = nat 5 \<and> (\<forall>r'\<in>set results. hybrid_score r \<le> hybrid_score r')))"
    and bonly: "\<forall>b\<in>set bs. truthy (doc_key (br_metadata b)) \<and>
          (\<forall>v\<in>set vs. doc_key (vr_metadata v) \<noteq> doc_key (br_metadata b)) \<longrightarrow>
        (\<exists>r\<in>set merged. \<exists>b1\<in>set bs. \<exists>b2\<in>set bs.
             doc_key (br_metadata b1) = doc_key (br_metadata b) \<and>
             doc_key (br_metadata b2) = doc_key (br_metadata b) \<and>
             metadata r = br_metadata b1 \<and> content r = display_content (br_content b1) \<and>
             bm25_score r = br_bm25_score b2 \<and> vector_score r = 0)"
    and both: "\<forall>v\<in>set vs. \<forall>b\<in>set bs. truthy (doc_key (vr_metadata v)) \<and>
          doc_key (br_metadata b) = doc_key (vr_metadata v) \<longrightarrow>
        (\<exists>r\<in>set merged. \<exists>v'\<in>set vs. \<exists>b'\<in>set bs.
             doc_key (vr_metadata v') = doc_key (vr_metadata v) \<and>
             doc_key (br_metadata b') = doc_key (vr_metadata v) \<and>
             metadata r = vr_metadata v' \<and> content r = display_content (vr_content v') \<and>
             vector_score r = vr_vector_score v' \<and> bm25_score r = br_bm25_score b')"
    by blast
  from demo_hybrid_scores s have "map hybrid_score results = [13/10, 3/10]" by simp
  then have len: "length results = 2" by (auto simp: map_eq_Cons_conv)
  from top len have inres: "r \<in> set results" if "r \<in> set merged" for r
    using that by auto
  from demo_kiosk_bm25_keys b obtain b1 b2 where bs: "bs = [b1, b2]"
    and kb: "doc_key (br_metadata b1) = MStr ''u1''" "doc_key (br_metadata b2) = MStr ''c''"
    by (auto simp: map_eq_Cons_conv)
  from demo_kiosk_vector_keys[folded vs_def] obtain v1 where vs: "vs = [v1]"
    and kv: "doc_key (vr_metadata v1) = MStr ''u1''" "vr_content v1 = ''Kiosk  mode''"
    by (auto simp: map_eq_Cons_conv)
  have b2in: "b2 \<in> set bs" and b1in: "b1 \<in> set bs" and v1in: "v1 \<in> set vs"
    using bs vs by simp_all
  have "truthy (doc_key (br_metadata b2)) \<and>
        (\<forall>v\<in>set vs. doc_key (vr_metadata v) \<noteq> doc_key (br_metadata b2))"
    using vs kv kb by simp
  from bonly[rule_format, OF b2in this] obtain r b1' where
    r: "r \<in> set merged" "b1' \<in> set bs" "doc_key (br_metadata b1') = doc_key (br_metadata b2)"
      "metadata r = br_metadata b1'" "vector_score r = 0"
    by blast
  then have "doc_key (metadata r) = MStr ''c''" using kb by simp
  with inres[OF r(1)] r(5)
  have c1: "\<exists>r\<in>set results. doc_key (metadata r) = MStr ''c'' \<and> vector_score r = 0"
    by blast
  have "truthy (doc_key (vr_metadata v1)) \<and> doc_key (br_metadata b1) = doc_key (vr_metadata v1)"
    using kv kb by simp
  from both[rule_format, OF v1in b1in this] obtain r' v' where
    r': "r' \<in> set merged" "v' \<in> set vs" "metadata r' = vr_metadata v'"
      "content r' = display_content (vr_content v')"
    by blast
  from r'(2) vs have "v' = v1" by simp
  with r'(3,4) kv have "doc_key (metadata r') = MStr ''u1'' \<and>
      content r' = display_content ''Kiosk  mode''"
    by simp
  with inres[OF r'(1)]
  have c2: "\<exists>r\<in>set results. doc_key (metadata r) = MStr ''u1'' \<and>
           content r = display_content ''Kiosk  mode''"
    by blast
  from s c1 c2 show "\<exists>results. search overlap_okapi demo_engine ''kiosk'' 5 ''hybrid'' = Inr (results, demo_engine) \<and>
      (\<exists>r\<in>set results. doc_key (metadata r) = MStr ''c'' \<and> vector_score r = 0) \<and>
      (\<exists>r\<in>set results. doc_key (metadata r) = MStr ''u1'' \<and>
           content r = display_content ''Kiosk  mode'')"
    by (intro exI[of _ results] conjI)
next
  define vs where "vs = vector_search demo_engine (enhance_query ''zzz'') (5 * 2)"
  obtain bs where b:
    "bm25_search overlap_okapi demo_engine (enhance_query ''zzz'') (5 * 2) = Inr (bs, demo_engine)"
    using bm25_search_built[OF demo_initialized] by blast
  with demo_no_match have bs: "bs = []" by simp
  define merged where "merged = map (make_result (vector_weight demo_engine) (bm25_weight demo_engine))
                      (process_bm25 bs (process_vector vs []))"
  from hybrid_fusion_complete[OF b vs_def merged_def] obtain results where
    s: "search overlap_okapi demo_engine ''zzz'' 5 ''hybrid'' = Inr (results, demo_engine)"
    and top: "(0::int) \<le> 5 \<longrightarrow> (\<forall>r\<in>set merged. r \<in> set results \<or>
           (length results = nat 5 \<and> (\<forall>r'\<in>set results. hybrid_score r \<le> hybrid_score r')))"
    and vonly: "\<forall>v\<in>set vs. truthy (doc_key (vr_metadata v)) \<and>
          (\<forall>b\<in>set bs. doc_key (br_metadata b) \<noteq> doc_key (vr_metadata v)) \<longrightarrow>
        (\<exists>r\<in>set merged. \<exists>v'\<in>set vs. doc_key (vr_metadata v') = doc_key (vr_metadata v) \<and>
             metadata r = vr_metadata v' \<and> content r = display_content (vr_content v') \<and>
             vector_score r = vr_vector_score v' \<and> bm25_score r = 0)"
    by blast
  from demo_zzz_length s have len: "length results = 1" by simp
  from top len have inres: "r \<in> set results" if "r \<in> set merged" for r
    using that by auto
  from demo_zzz_vector_keys[folded vs_def] obtain v1 where vs: "vs = [v1]"
    and kv: "doc_key (vr_metadata v1) = MStr ''u1''"
    by (auto simp: map_eq_Cons_conv)
  have v1in: "v1 \<in> set vs" using vs by simp
  have "truthy (doc_key (vr_metadata v1)) \<and>
        (\<forall>b\<in>set bs. doc_key (br_metadata b) \<noteq> doc_key (vr_metadata v1))"
    using bs kv by simp
  from vonly[rule_format, OF v1in this] obtain r v' where
    r: "r \<in> set merged" "v' \<in> set vs" "metadata r = vr_metadata v'" "bm25_score r = 0"
    by blast
  from r(2) vs have "v' = v1" by simp
  with r(3) kv have "doc_key (metadata r) = MStr ''u1''" by simp
  with inres[OF r(1)] r(4)
  have "\<exists>r\<in>set results. doc_key (metadata r) = MStr ''u1'' \<and> bm25_score r = 0"
    by blast
  with s show "\<exists>results. search overlap_okapi demo_engine ''zzz'' 5 ''hybrid'' = Inr (results, demo_engine) \<and>
      (\<exists>r\<in>set results. doc_key (metadata r) = MStr ''u1'' \<and> bm25_score r = 0)"
    by (intro exI[of _ results] conjI)
qed

theorem id_with_empty_url_counterexample:
  "vector_search empty_url_engine (enhance_query ''zzz'') (5 * 2) =
     [\<lparr>vr_content = ''x'', vr_metadata = [''url'' \<mapsto> MStr [], ''id'' \<mapsto> MStr ''x''],
       vr_vector_score = 1, vr_rank = 1\<rparr>] \<and>
   bm25_search overlap_okapi empty_url_engine (enhance_query ''zzz'') (5 * 2) =
     Inr ([], empty_url_engine) \<and>
   search overlap_okapi empty_url_engine ''zzz'' 5 ''hybrid'' = Inr ([], empty_url_engine)"
proof -
  let ?v = "\<lparr>vr_content = ''x'', vr_metadata = [''url'' \<mapsto> MStr [], ''id'' \<mapsto> MStr ''x''],
       vr_vector_score = 1, vr_rank = 1\<rparr>"
  have v: "vector_search empty_url_engine (enhance_query ''zzz'') (5 * 2) = [?v]"
    by (simp add: vector_search_def empty_url_engine_def)
  obtain hits where "bm25_search overlap_okapi empty_url_engine (enhance_query ''zzz'') (5 * 2) =
      Inr (hits, empty_url_engine)"
    using bm25_search_built[OF empty_url_engine_initialized] by blast
  with empty_url_engine_no_match have b:
    "bm25_search overlap_okapi empty_url_engine (enhance_query ''zzz'') (5 * 2) =
      Inr ([], empty_url_engine)"
    by simp
  have "\<not> truthy (doc_key (vr_metadata ?v))" by (simp add: doc_key_def dict_get_def)
  from fuse_single_falsy[OF this] have
    f: "fuse (vector_weight empty_url_engine) (bm25_weight empty_url_engine) 5 [?v] [] = []" .
  have s: "search overlap_okapi empty_url_engine ''zzz'' 5 ''hybrid'' = Inr ([], empty_url_engine)"
    using v b f by (simp add: search_def hybrid_search_def Let_def)
  from v b s show ?thesis by (intro conjI)
qed

section \<open>Claims about the vector score\<close>

lemma merged_hybrid_score:
  "r \<in> set (map (make_result vw bw) c) \<Longrightarrow>
   hybrid_score r = vw * vector_score r + bw * bm25_score r"
  by (auto simp: make_result_def Let_def)

lemma vector_search_candidate:
  assumes "map (\<lambda>h. (vr_content h, vr_metadata h, vr_vector_score h)) vs =
           map (\<lambda>p. (fst p, fst (snd p), 1 / (1 + snd (snd p)))) cands"
    and "v \<in> set vs"
  shows "\<exists>p\<in>set cands. vr_content v = fst p \<and> vr_metadata v = fst (snd p) \<and>
           vr_vector_score v = 1 / (1 + snd (snd p))"
proof -
  from assms(2) have "(vr_content v, vr_metadata v, vr_vector_score v) \<in>
      set (map (\<lambda>h. (vr_content h, vr_metadata h, vr_vector_score h)) vs)"
    by force
  then show ?thesis unfolding assms(1) by auto
qed

lemma vector_search_recorded:
  assumes "map (\<lambda>h. (vr_content h, vr_metadata h, vr_vector_score h)) vs =
           map (\<lambda>p. (fst p, fst (snd p), 1 / (1 + snd (snd p)))) cands"
    and "(doc, md, d) \<in> set cands"
  shows "\<exists>v\<in>set vs. vr_content v = doc \<and> vr_metadata v = md \<and> vr_vector_score v = 1 / (1 + d)"
proof -
  from assms(2) have "(doc, md, 1 / (1 + d)) \<in>
      set (map (\<lambda>p. (fst p, fst (snd p), 1 / (1 + snd (snd p)))) cands)"
    by force
  then show ?thesis unfolding assms(1)[symmetric] by auto
qed

lemma perfect_match_merged:
  assumes q: "coll_query (collection e) (enhance_query query) (k * 2) = Inr res"
    and nz: "\<forall>p\<in>set (zip (documents res) (zip (metadatas res) (distances res))).
               1 + snd (snd p) \<noteq> 0"
    and c: "(doc, md, 0) \<in> set (zip (documents res) (zip (metadatas res) (distances res)))"
    and t: "truthy (doc_key md)"
    and same: "\<forall>p\<in>set (zip (documents res) (zip (metadatas res) (distances res))).
               doc_key (fst (snd p)) = doc_key md \<longrightarrow> snd (snd p) = 0"
    and b: "bm25_search BM25Okapi e (enhance_query query) (k * 2) = Inr (bs, e')"
    and nob: "\<forall>b\<in>set bs. doc_key (br_metadata b) \<noteq> doc_key md"
  shows "\<exists>results r. search BM25Okapi e query k ''hybrid'' = Inr (results, e') \<and>
           doc_key (metadata r) = doc_key md \<and>
           vector_score r = 1 \<and> bm25_score r = 0 \<and> hybrid_score r = vector_weight e * 1 \<and>
           (\<exists>p\<in>set (zip (documents res) (zip (metadatas res) (distances res))).
              snd (snd p) = 0 \<and> metadata r = fst (snd p) \<and> content r = display_content (fst p)) \<and>
           (0 \<le> k \<longrightarrow> r \<in> set results \<or>
              (length results = nat k \<and> (\<forall>r'\<in>set results. hybrid_score r \<le> hybrid_score r')))"
proof -
  let ?cands = "zip (documents res) (zip (metadatas res) (distances res))"
  let ?vs = "vector_search e (enhance_query query) (k * 2)"
  let ?vw = "vector_weight e" and ?bw = "bm25_weight e"
  let ?merged = "map (make_result ?vw ?bw) (process_bm25 bs (process_vector ?vs []))"
  let ?results = "fuse ?vw ?bw k ?vs bs"
  have sh: "map (\<lambda>h. (vr_content h, vr_metadata h, vr_vector_score h)) ?vs =
           map (\<lambda>p. (fst p, fst (snd p), 1 / (1 + snd (snd p)))) ?cands"
    by (rule vector_search_scores[OF q nz])
  from vector_search_recorded[OF sh c] obtain v where
    v: "v \<in> set ?vs" "vr_metadata v = md"
    by blast
  have tv: "truthy (doc_key (vr_metadata v))" using t v(2) by simp
  have nb: "\<forall>b\<in>set bs. doc_key (br_metadata b) \<noteq> doc_key (vr_metadata v)"
    using nob v(2) by simp
  from vector_only_result_merged[OF v(1) tv nb, of ?vw ?bw] obtain r v' where
    r: "r \<in> set ?merged" "v' \<in> set ?vs" "doc_key (vr_metadata v') = doc_key (vr_metadata v)"
    "metadata r = vr_metadata v'" "content r = display_content (vr_content v')"
    "vector_score r = vr_vector_score v'" "bm25_score r = 0"
    by blast
  from vector_search_candidate[OF sh r(2)] obtain p where
    p: "p \<in> set ?cands" "vr_content v' = fst p" "vr_metadata v' = fst (snd p)"
    "vr_vector_score v' = 1 / (1 + snd (snd p))"
    by blast
  from p(1,3) r(3) v(2) same have d0: "snd (snd p) = 0" by auto
  have vs1: "vector_score r = 1" using r(6) p(4) d0 by simp
  have key: "doc_key (metadata r) = doc_key md" using r(3,4) v(2) by simp
  have hs: "hybrid_score r = ?vw * 1"
    using merged_hybrid_score[OF r(1)] vs1 r(7) by simp
  have prov: "\<exists>p\<in>set ?cands. snd (snd p) = 0 \<and> metadata r = fst (snd p) \<and>
      content r = display_content (fst p)"
    using p(1,2,3) d0 r(4,5) by auto
  have s: "search BM25Okapi e query k ''hybrid'' = Inr (?results, e')"
    using b bm25_search_preserves[OF b] by (simp add: search_def hybrid_search_def Let_def)
  have top: "0 \<le> k \<longrightarrow> r \<in> set ?results \<or>
      (length ?results = nat k \<and> (\<forall>r'\<in>set ?results. hybrid_score r \<le> hybrid_score r'))"
    using fuse_keeps_top[OF _ r(1)] by blast
  from s key vs1 r(7) hs prov top show ?thesis
    by (intro exI[of _ ?results] exI[of _ r] conjI)
qed

text \<open>
  C6, as the code has it. Whenever the store answers the vector query, \<^const>\<open>vector_search\<close>
  records for every returned candidate, in the store's order, its document, its metadata and
  the score \<open>1 / (1 + d)\<close> of its distance \<open>d\<close>, provided no returned distance is \<open>-1\<close>; a
  single distance of \<open>-1\<close> makes the division raise, and the vector branch then answers with
  the empty list. In hybrid mode the candidates are merged under the key of their metadata
  (the url, or the id when there is no url), and a later candidate with the same key replaces
  an earlier one. So, for every list of candidates and every list of lexical results: a
  candidate at distance 0 whose key is not empty, whose key is carried only by candidates at
  distance 0, and whose key no lexical result carries, gives a merged result of that key with
  \<open>vector_score = 1\<close>, \<open>bm25_score = 0\<close> and \<open>hybrid_score = vector_weight * 1\<close>, built from a
  candidate at distance 0; for \<open>k \<ge> 0\<close> that result is among the results returned, unless \<open>k\<close>
  results with a hybrid score at least as high are returned.
\<close>

theorem vector_score_is_inverse_distance:
  "(coll_query (collection e) query n = Inr results \<longrightarrow>
      ((\<forall>p\<in>set (zip (documents results) (zip (metadatas results) (distances results))).
           1 + snd (snd p) \<noteq> 0) \<longrightarrow>
         map (\<lambda>h. (vr_content h, vr_metadata h, vr_vector_score h)) (vector_search e query n) =
         map (\<lambda>p. (fst p, fst (snd p), 1 / (1 + snd (snd p))))
             (zip (documents results) (zip (metadatas results) (distances results)))) \<and>
      ((\<exists>p\<in>set (zip (documents results) (zip (metadatas results) (distances results))).
           1 + snd (snd p) = 0) \<longrightarrow>
         vector_search e query n = [])) \<and>
   (coll_query (collection e) (enhance_query q) (k * 2) = Inr res \<and>
      (\<forall>p\<in>set (zip (documents res) (zip (metadatas res) (distances res))).
           1 + snd (snd p) \<noteq> 0) \<and>
      (doc, md, 0) \<in> set (zip (documents res) (zip (metadatas res) (distances res))) \<and>
      truthy (doc_key md) \<and>
      (\<forall>p\<in>set (zip (documents res) (zip (metadatas res) (distances res))).
           doc_key (fst (snd p)) = doc_key md \<longrightarrow> snd (snd p) = 0) \<and>
      bm25_search BM25Okapi e (enhance_query q) (k * 2) = Inr (bs, e') \<and>
      (\<forall>b\<in>set bs. doc_key (br_metadata b) \<noteq> doc_key md) \<longrightarrow>
      (\<exists>rs r. search BM25Okapi e q k ''hybrid'' = Inr (rs, e') \<and>
           doc_key (metadata r) = doc_key md \<and>
           vector_score r = 1 \<and> bm25_score r = 0 \<and> hybrid_score r = vector_weight e * 1 \<and>
           (\<exists>p\<in>set (zip (documents res) (zip (metadatas res) (distances res))).
              snd (snd p) = 0 \<and> metadata r = fst (snd p) \<and> content r = display_content (fst p)) \<and>
           (0 \<le> k \<longrightarrow> r \<in> set rs \<or>
              (length rs = nat k \<and> (\<forall>r'\<in>set rs. hybrid_score r \<le> hybrid_score r')))))"
proof (intro conjI impI)
  assume "coll_query (collection e) query n = Inr results"
    and "\<forall>p\<in>set (zip (documents results) (zip (metadatas results) (distances results))).
           1 + snd (snd p) \<noteq> 0"
  then show "map (\<lambda>h. (vr_content h, vr_metadata h, vr_vector_score h)) (vector_search e query n) =
         map (\<lambda>p. (fst p, fst (snd p), 1 / (1 + snd (snd p))))
             (zip (documents results) (zip (metadatas results) (distances results)))"
    by (rule vector_search_scores)
next
  assume "coll_query (collection e) query n = Inr results"
    and "\<exists>p\<in>set (zip (documents results) (zip (metadatas results) (distances results))).
           1 + snd (snd p) = 0"
  then show "vector_search e query n = []"
    by (rule vector_search_zero_division)
next
  assume a: "coll_query (collection e) (enhance_query q) (k * 2) = Inr res \<and>
      (\<forall>p\<in>set (zip (documents res) (zip (metadatas res) (distances res))).
           1 + snd (snd p) \<noteq> 0) \<and>
      (doc, md, 0) \<in> set (zip (documents res) (zip (metadatas res) (distances res))) \<and>
      truthy (doc_key md) \<and>
      (\<forall>p\<in>set (zip (documents res) (zip (metadatas res) (distances res))).
           doc_key (fst (snd p)) = doc_key md \<longrightarrow> snd (snd p) = 0) \<and>
      bm25_search BM25Okapi e (enhance_query q) (k * 2) = Inr (bs, e') \<and>
      (\<forall>b\<in>set bs. doc_key (br_metadata b) \<noteq> doc_key md)"
  show "\<exists>rs r. search BM25Okapi e q k ''hybrid'' = Inr (rs, e') \<and>
           doc_key (metadata r) = doc_key md \<and>
           vector_score r = 1 \<and> bm25_score r = 0 \<and> hybrid_score r = vector_weight e * 1 \<and>
           (\<exists>p\<in>set (zip (documents res) (zip (metadatas res) (distances res))).
              snd (snd p) = 0 \<and> metadata r = fst (snd p) \<and> content r = display_content (fst p)) \<and>
           (0 \<le> k \<longrightarrow> r \<in> set rs \<or>
              (length rs = nat k \<and> (\<forall>r'\<in>set rs. hybrid_score r \<le> hybrid_score r')))"
    by (rule perfect_match_merged[OF a[THEN conjunct1] a[THEN conjunct2, THEN conjunct1]
          a[THEN conjunct2, THEN conjunct2, THEN conjunct1]
          a[THEN conjunct2, THEN conjunct2, THEN conjunct2, THEN conjunct1]
          a[THEN conjunct2, THEN conjunct2, THEN conjunct2, THEN conjunct2, THEN conjunct1]
          a[THEN conjunct2, THEN conjunct2, THEN conjunct2, THEN conjunct2, THEN conjunct2,
            THEN conjunct1]
          a[THEN conjunct2, THEN conjunct2, THEN conjunct2, THEN conjunct2, THEN conjunct2,
            THEN conjunct2]])
qed


theorem vector_score_is_inverse_distance_witness:
  "map (\<lambda>h. (vr_content h, vr_metadata h, vr_vector_score h)) (vector_search demo_engine ''zzz'' 5) =
     [(''Kiosk  mode'', [''url'' \<mapsto> MStr ''u1'', ''title'' \<mapsto> MStr ''K''], 1)] \<and>
   vector_search minus_one_engine ''zzz'' 5 = [] \<and>
   bm25_search overlap_okapi demo_engine (enhance_query ''zzz'') (5 * 2) = Inr ([], demo_engine) \<and>
   (\<exists>rs r. search overlap_okapi demo_engine ''zzz'' 5 ''hybrid'' = Inr (rs, demo_engine) \<and>
        r \<in> set rs \<and> vector_score r = 1 \<and> bm25_score r = 0 \<and>
        hybrid_score r = vector_weight demo_engine * 1 \<and>
        metadata r = [''url'' \<mapsto> MStr ''u1'', ''title'' \<mapsto> MStr ''K''] \<and>
        content r = display_content ''Kiosk  mode'')"
proof -
  let ?md = "[''url'' \<mapsto> MStr ''u1'', ''title'' \<mapsto> MStr ''K'']"
  let ?res = "\<lparr>documents = [''Kiosk  mode''], metadatas = [?md], distances = [0::real]\<rparr>"
  let ?res1 = "\<lparr>documents = [''a''], metadatas = [Map.empty :: metadata], distances = [- 1 :: real]\<rparr>"
  note t = vector_score_is_inverse_distance[of demo_engine "''zzz''" 5 ?res "''zzz''" 5 ?res
      "''Kiosk  mode''" ?md overlap_okapi "[]" demo_engine]
  note t1 = vector_score_is_inverse_distance[of minus_one_engine "''zzz''" 5 ?res1]
  have a: "map (\<lambda>h. (vr_content h, vr_metadata h, vr_vector_score h)) (vector_search demo_engine ''zzz'' 5) =
     [(''Kiosk  mode'', ?md, 1)]"
    using t[THEN conjunct1, THEN mp, OF demo_query, THEN conjunct1] by simp
  have b: "vector_search minus_one_engine ''zzz'' 5 = []"
    using t1[THEN conjunct1, THEN mp, OF minus_one_query, THEN conjunct2] by simp
  obtain hits where h: "bm25_search overlap_okapi demo_engine (enhance_query ''zzz'') (5 * 2) = Inr (hits, demo_engine)"
    using bm25_search_built[OF demo_initialized] by blast
  with demo_no_match have c: "bm25_search overlap_okapi demo_engine (enhance_query ''zzz'') (5 * 2) = Inr ([], demo_engine)"
    by simp
  have k: "truthy (doc_key ?md)" by (simp add: doc_key_def dict_get_def)
  have hyp: "coll_query (collection demo_engine) (enhance_query ''zzz'') (5 * 2) = Inr ?res \<and>
      (\<forall>p\<in>set (zip (documents ?res) (zip (metadatas ?res) (distances ?res))).
           1 + snd (snd p) \<noteq> 0) \<and>
      (''Kiosk  mode'', ?md, 0) \<in> set (zip (documents ?res) (zip (metadatas ?res) (distances ?res))) \<and>
      truthy (doc_key ?md) \<and>
      (\<forall>p\<in>set (zip (documents ?res) (zip (metadatas ?res) (distances ?res))).
           doc_key (fst (snd p)) = doc_key ?md \<longrightarrow> snd (snd p) = 0) \<and>
      bm25_search overlap_okapi demo_engine (enhance_query ''zzz'') (5 * 2) = Inr ([], demo_engine) \<and>
      (\<forall>b\<in>set ([] :: bm25_result list). doc_key (br_metadata b) \<noteq> doc_key ?md)"
    using demo_query k c by simp
  from t[THEN conjunct2, THEN mp, OF hyp] obtain rs r where
    s: "search overlap_okapi demo_engine ''zzz'' 5 ''hybrid'' = Inr (rs, demo_engine)"
    and r: "vector_score r = 1" "bm25_score r = 0" "hybrid_score r = vector_weight demo_engine * 1"
    and p: "\<exists>p\<in>set (zip (documents ?res) (zip (metadatas ?res) (distances ?res))).
              snd (snd p) = 0 \<and> metadata r = fst (snd p) \<and> content r = display_content (fst p)"
    and top: "(0::int) \<le> 5 \<longrightarrow> r \<in> set rs \<or>
              (length rs = nat 5 \<and> (\<forall>r'\<in>set rs. hybrid_score r \<le> hybrid_score r'))"
    by blast
  from demo_zzz_length s have "length rs = 1" by simp
  with top have mem: "r \<in> set rs" by auto
  from p have m: "metadata r = ?md" "content r = display_content ''Kiosk  mode''" by simp_all
  from s mem r m have d: "\<exists>rs r. search overlap_okapi demo_engine ''zzz'' 5 ''hybrid'' = Inr (rs, demo_engine) \<and>
        r \<in> set rs \<and> vector_score r = 1 \<and> bm25_score r = 0 \<and>
        hybrid_score r = vector_weight demo_engine * 1 \<and>
        metadata r = ?md \<and> content r = display_content ''Kiosk  mode''"
    by (intro exI[of _ rs] exI[of _ r] conjI)
  from a b c d show ?thesis by (intro conjI)
qed

text \<open>
  The sentence of C6 about a candidate at distance 0 does not hold for every such candidate:
  the store below returns two chunks of one page (the same url), at distances 0 and 1. Both
  scores are recorded by the vector branch, the lexical branch finds nothing, and the only
  result of the hybrid search is the second chunk, with \<open>vector_score = 1 / 2\<close>.
\<close>

theorem shared_key_overwrites_counterexample:
  "distances (projr (coll_query (collection dup_engine) (enhance_query ''zzz'') (5 * 2))) = [0, 1] \<and>
   map (\<lambda>m. doc_key m)
     (metadatas (projr (coll_query (collection dup_engine) (enhance_query ''zzz'') (5 * 2)))) =
     [MStr ''u9'', MStr ''u9''] \<and>
   map vr_vector_score (vector_search dup_engine (enhance_query ''zzz'') (5 * 2)) = [1, 1/2] \<and>
   map vr_content (vector_search dup_engine (enhance_query ''zzz'') (5 * 2)) =
     [''chunk one'', ''chunk two''] \<and>
   length (fst (projr (bm25_search overlap_okapi dup_engine (enhance_query ''zzz'') (5 * 2)))) = 0 \<and>
   map content (fst (projr (search overlap_okapi dup_engine ''zzz'' 5 ''hybrid''))) =
     [''chunk two''] \<and>
   map vector_score (fst (projr (search overlap_okapi dup_engine ''zzz'' 5 ''hybrid''))) = [1/2]"
  by code_simp

section \<open>Claims about the content of lexical results\<close>
















end
